theory Spec2Isabelle
  imports Main
begin

section \<open>Python strings\<close>

text \<open>
  A Python \<open>str\<close> is modelled as a \<^typ>\<open>string\<close>: a list of 8-bit characters, read as
  the code points below 256 (the range in which HTTP header values arrive). Bytes
  objects are lists of characters as well.
\<close>

type_synonym bytes = "char list"

definition code_point :: "char \<Rightarrow> nat" where
  "code_point c = of_char c"

text \<open>
  \<^verbatim>\<open>str.lower()\<close> on one character: the letters A to Z and the upper-case letters of
  Latin-1 (192 to 222 but for the multiplication sign 215) move up by 32; every other
  character below 256 is its own lower case.
\<close>

definition lower_char :: "char \<Rightarrow> char" where
  "lower_char c =
     (let n = code_point c
      in if (65 \<le> n \<and> n \<le> 90) \<or> (192 \<le> n \<and> n \<le> 222 \<and> n \<noteq> 215)
         then char_of (n + 32) else c)"

definition lower :: "string \<Rightarrow> string" where
  "lower s = map lower_char s"

text \<open>
  \<^verbatim>\<open>str.isspace()\<close> on one character below 256, the characters that
  \<^verbatim>\<open>str.strip()\<close> removes: tab to carriage return, the four separators 28 to 31,
  space, NEL (133) and the no-break space (160).
\<close>

definition is_space :: "char \<Rightarrow> bool" where
  "is_space c =
     (let n = code_point c
      in (9 \<le> n \<and> n \<le> 13) \<or> (28 \<le> n \<and> n \<le> 32) \<or> n = 133 \<or> n = 160)"

text \<open>\<^verbatim>\<open>s.strip(chars)\<close>: drop the characters of a set at both ends.\<close>

definition strip_where :: "(char \<Rightarrow> bool) \<Rightarrow> string \<Rightarrow> string" where
  "strip_where p s = rev (dropWhile p (rev (dropWhile p s)))"

definition strip :: "string \<Rightarrow> string" where
  "strip s = strip_where is_space s"

definition strip_chars :: "string \<Rightarrow> string \<Rightarrow> string" where
  "strip_chars cs s = strip_where (\<lambda>c. c \<in> set cs) s"

text \<open>\<^verbatim>\<open>s.split(sep)\<close> for a one-character separator: never the empty list.\<close>

fun split_on :: "char \<Rightarrow> string \<Rightarrow> string list" where
  "split_on sep [] = [[]]"
| "split_on sep (c # cs) =
     (if c = sep then [] # split_on sep cs
      else (case split_on sep cs of
              [] \<Rightarrow> [[c]]
            | w # ws \<Rightarrow> (c # w) # ws))"

text \<open>\<^verbatim>\<open>s.split()\<close>: the maximal runs of characters that are not whitespace.\<close>

fun split_ws :: "string \<Rightarrow> string list" where
  "split_ws [] = []"
| "split_ws (c # cs) =
     (if is_space c then split_ws cs
      else (case cs of
              [] \<Rightarrow> [[c]]
            | d # ds \<Rightarrow>
                if is_space d then [c] # split_ws cs
                else (case split_ws cs of
                        [] \<Rightarrow> [[c]]
                      | w # ws \<Rightarrow> (c # w) # ws)))"

text \<open>\<^verbatim>\<open>needle in haystack\<close> on strings: a contiguous occurrence.\<close>

fun starts_with :: "string \<Rightarrow> string \<Rightarrow> bool" where
  "starts_with [] hay = True"
| "starts_with (n # ns) [] = False"
| "starts_with (n # ns) (h # hs) = (n = h \<and> starts_with ns hs)"

fun str_in :: "string \<Rightarrow> string \<Rightarrow> bool" where
  "str_in needle [] = (needle = [])"
| "str_in needle (h # hs) = (starts_with needle (h # hs) \<or> str_in needle hs)"


section \<open>POSIX paths\<close>

text \<open>
  \<^verbatim>\<open>os.path.join\<close>, \<^verbatim>\<open>os.path.dirname\<close> and \<^verbatim>\<open>os.path.basename\<close> as
  \<^verbatim>\<open>posixpath\<close> defines them.
\<close>

definition path_join :: "string \<Rightarrow> string \<Rightarrow> string" where
  "path_join a b =
     (if starts_with ''/'' b then b
      else if a = [] \<or> last a = CHR ''/'' then a @ b
      else a @ ''/'' @ b)"

definition path_basename :: "string \<Rightarrow> string" where
  "path_basename p = rev (takeWhile (\<lambda>c. c \<noteq> CHR ''/'') (rev p))"

definition path_dirname :: "string \<Rightarrow> string" where
  "path_dirname p =
     (let head = rev (dropWhile (\<lambda>c. c \<noteq> CHR ''/'') (rev p))
      in if head \<noteq> [] \<and> \<not> list_all (\<lambda>c. c = CHR ''/'') head
         then rev (dropWhile (\<lambda>c. c = CHR ''/'') (rev head))
         else head)"

section \<open>Data model\<close>

text \<open>Return codes of the script.\<close>

definition SUCCESS :: int where "SUCCESS = 0"
definition GENERIC_ERR :: int where "GENERIC_ERR = 1"
definition IMPORT_ERR :: int where "IMPORT_ERR = 2"
definition ATTRIBUTE_ERR :: int where "ATTRIBUTE_ERR = 3"
definition INVALID_ARG_ERR :: int where "INVALID_ARG_ERR = 4"
definition S3_BUCKET_CR_ERR :: int where "S3_BUCKET_CR_ERR = 5"

definition CONTENT_TYPE_TEXT :: string where "CONTENT_TYPE_TEXT = ''text''"
definition CONTENT_TYPE_HTML :: string where "CONTENT_TYPE_HTML = ''html''"

text \<open>
  The exceptions that the handlers of the script catch (all are subclasses of
  \<^verbatim>\<open>Exception\<close>). \<^verbatim>\<open>SystemExit\<close> is not one of them: \<^verbatim>\<open>sys.exit\<close> passes every
  \<^verbatim>\<open>except Exception\<close> of the script and ends the process with its code, so a method
  that may call it has an \<open>outcome\<close>.
\<close>

datatype py_exception =
  AttributeError | RequestException | FileNotFoundError | IsADirectoryError | XLRDError
| TypeError | ClientError

datatype outcome = Ret bool | SysExit int

text \<open>What \<^verbatim>\<open>requests.get\<close> returns: status code, headers and body.\<close>

record response =
  status_code :: int
  headers :: "string \<rightharpoonup> string"
  content :: bytes

text \<open>
  Cell values of a data frame and values of a record. \<open>NaN\<close> is the missing-value
  marker of pandas, \<open>PyFloat m e\<close> the finite float \<open>m * 2 ^ e\<close>.
\<close>

datatype py_value =
  PyNone | NaN | PyStr string | PyInt int | PyFloat int int | PyBool bool

type_synonym py_dict = "string \<rightharpoonup> py_value"

text \<open>
  A data frame has a dtype for each column, which decides what the column can hold:
  only a column of dtype \<^verbatim>\<open>object\<close> holds \<^verbatim>\<open>None\<close>.
\<close>

datatype dtype = dtype_object | dtype_float64 | dtype_int64 | dtype_bool | dtype_str

record data_frame =
  columns :: "string list"
  dtypes :: "dtype list"
  rows :: "py_value list list"

text \<open>The calls on the local file system and on the object store, as a run makes them.\<close>

datatype fs_op =
  PathExists string
| MakeDirs string
| IsFile string
| Remove string
| OpenWrite string
| WriteFile string bytes
| GetSize string
| ReadFile string

datatype s3_op =
  ListBuckets
| CreateBucket string string
| PutObject string string string bytes

datatype stage =
  ArgValidation | Fetch | DownloadabilityCheck | ExtensionResolution
| Persist | ParseSerialize | Upload

text \<open>
  The collaborators of the script, which it only calls: the command line, the location of
  the script, the HTTP client, the MIME registry, the spreadsheet reader, the JSON
  encoder and the object store. Each is a function of what the script passes to it;
  a call that raises returns \<open>Inl\<close>.
  \<^item> \<open>requests_get url\<close>: the response, which the script tests against \<^verbatim>\<open>None\<close>;
  \<^item> \<open>guess_all_extensions type strict\<close> and \<open>guess_extension type strict\<close>
    (\<^verbatim>\<open>None\<close> when the type is unknown) of \<^verbatim>\<open>mimetypes\<close>;
  \<^item> \<open>ExcelFile_sheet_names file\<close>: the sheet names of the workbook read from a file
    (\<open>None\<close>: no such file), and \<open>read_excel file sheet\<close>: that sheet as a data frame;
  \<^item> \<open>json_dump records\<close>: the text that \<^verbatim>\<open>json.dump\<close> has written to the open file,
    and the exception that stopped it, if any;
  \<^item> \<open>s3_buckets_all\<close>: the names of the existing buckets;
    \<open>s3_create_bucket name location\<close>: whether the result is an object (not \<^verbatim>\<open>None\<close>);
    \<open>s3_put_object bucket acl key body\<close>: whether the response is truthy.
\<close>

record env =
  sys_argv :: "string list"
  SCRIPT_BASE_PATH :: string
  requests_get :: "string \<Rightarrow> py_exception + response option"
  guess_all_extensions :: "string \<Rightarrow> bool \<Rightarrow> string list"
  guess_extension :: "string \<Rightarrow> bool \<Rightarrow> string option"
  ExcelFile_sheet_names :: "bytes option \<Rightarrow> py_exception + string list"
  read_excel :: "bytes option \<Rightarrow> string \<Rightarrow> py_exception + data_frame"
  json_dump :: "py_dict list \<Rightarrow> string \<times> py_exception option"
  s3_buckets_all :: "py_exception + string list"
  s3_create_bucket :: "string \<Rightarrow> string \<Rightarrow> py_exception + bool"
  s3_put_object :: "string \<Rightarrow> string \<Rightarrow> string \<Rightarrow> bytes \<Rightarrow> py_exception + bool"

text \<open>
  The state of a run: the fields of the \<^verbatim>\<open>DataIngestion\<close> object, the module global
  \<^verbatim>\<open>OUTPUT_FILE_PATH\<close> (which \<^verbatim>\<open>main\<close> extends), the files and directories on disk, and
  the calls made so far on the file system and the object store. The three request
  fields hold strings: \<^verbatim>\<open>main\<close> calls every other stage after \<^verbatim>\<open>get_cmd_argv\<close> has
  stored the arguments. \<open>trace\<close> is not a variable of the script: it records which
  stage methods \<^verbatim>\<open>main\<close> has called, and what each one returned.
\<close>

record state =
  aws_bucket_name :: string
  url_file_path :: string
  sheet_name :: string
  response :: "response option"
  OUTPUT_FILE_PATH :: string
  files :: "string \<rightharpoonup> bytes"
  dirs :: "string set"
  fs_log :: "fs_op list"
  s3_log :: "s3_op list"
  trace :: "(stage \<times> outcome) list"

definition output_dir :: "env \<Rightarrow> string" where
  "output_dir env = path_join (SCRIPT_BASE_PATH env) ''output''"

definition OUTPUT_FILE_PATH_init :: "env \<Rightarrow> string" where
  "OUTPUT_FILE_PATH_init env = path_join (output_dir env) ''dataingestion''"

definition OUTPUT_FILE_JSON :: "env \<Rightarrow> string" where
  "OUTPUT_FILE_JSON env = path_join (output_dir env) ''dataingestion.json''"

definition JSON_FILE_PATH_ON_AWS :: "env \<Rightarrow> string" where
  "JSON_FILE_PATH_ON_AWS env = ''DataIngestion/'' @ path_basename (OUTPUT_FILE_JSON env)"

text \<open>
  The entry section builds \<^verbatim>\<open>DataIngestion(None, None, None)\<close>; the request fields are
  empty until \<^verbatim>\<open>get_cmd_argv\<close> stores the arguments.
\<close>

definition init_state :: "env \<Rightarrow> (string \<rightharpoonup> bytes) \<Rightarrow> string set \<Rightarrow> state" where
  "init_state env fs ds =
     \<lparr>aws_bucket_name = [], url_file_path = [], sheet_name = [], response = None,
      OUTPUT_FILE_PATH = OUTPUT_FILE_PATH_init env,
      files = fs, dirs = ds, fs_log = [], s3_log = [], trace = []\<rparr>"

text \<open>
  The disk is a map from paths to contents, beside the set of directories; each call on
  it is recorded in \<open>fs_log\<close>, each call on the object store in \<open>s3_log\<close>. A call
  raises when the file it needs is missing, and an \<^verbatim>\<open>open\<close> for writing raises when
  the path is a directory or the directory of the path is missing; permission errors and
  a full disk are outside the model.
\<close>

definition fs_call :: "fs_op \<Rightarrow> state \<Rightarrow> state" where
  "fs_call op s = s\<lparr>fs_log := fs_log s @ [op]\<rparr>"

definition s3_call :: "s3_op \<Rightarrow> state \<Rightarrow> state" where
  "s3_call op s = s\<lparr>s3_log := s3_log s @ [op]\<rparr>"

text \<open>
  A directory is there when it is in \<open>dirs\<close>; the empty directory name (the current
  directory) and the root always are.
\<close>

definition dir_exists :: "string \<Rightarrow> state \<Rightarrow> bool" where
  "dir_exists d s = (d = [] \<or> d = ''/'' \<or> d \<in> dirs s)"

text \<open>
  \<^verbatim>\<open>os.path.isfile\<close>: there is content at the path, the path is not a directory, and
  the directory of the path is there.
\<close>

definition os_path_isfile :: "string \<Rightarrow> state \<Rightarrow> bool \<times> state" where
  "os_path_isfile p s =
     (files s p \<noteq> None \<and> p \<notin> dirs s \<and> dir_exists (path_dirname p) s,
      fs_call (IsFile p) s)"

definition os_path_exists :: "string \<Rightarrow> state \<Rightarrow> bool \<times> state" where
  "os_path_exists p s = (files s p \<noteq> None \<or> p \<in> dirs s, fs_call (PathExists p) s)"

definition os_makedirs :: "string \<Rightarrow> state \<Rightarrow> state" where
  "os_makedirs p s = fs_call (MakeDirs p) (s\<lparr>dirs := insert p (dirs s)\<rparr>)"

definition os_remove :: "string \<Rightarrow> state \<Rightarrow> state" where
  "os_remove p s = fs_call (Remove p) (s\<lparr>files := (files s)(p := None)\<rparr>)"

text \<open>
  \<^verbatim>\<open>open(p, "wb")\<close> or \<^verbatim>\<open>open(p, "w")\<close>, the writes, and the close. The \<^verbatim>\<open>open\<close>
  raises when the path is a directory or its directory is missing, and then nothing is
  written; otherwise the file holds the bytes.
\<close>

definition write_file :: "string \<Rightarrow> bytes \<Rightarrow> state \<Rightarrow> py_exception option \<times> state" where
  "write_file p b s =
     (let s1 = fs_call (OpenWrite p) s
      in if p \<in> dirs s then (Some IsADirectoryError, s1)
         else if \<not> dir_exists (path_dirname p) s then (Some FileNotFoundError, s1)
         else (None, fs_call (WriteFile p b) (s1\<lparr>files := (files s1)(p \<mapsto> b)\<rparr>)))"

text \<open>The paths at which an \<^verbatim>\<open>open\<close> for writing does not raise.\<close>

definition can_open :: "string \<Rightarrow> state \<Rightarrow> bool" where
  "can_open p s = (p \<notin> dirs s \<and> dir_exists (path_dirname p) s)"

text \<open>\<^verbatim>\<open>os.path.getsize\<close> raises when there is no such file.\<close>

definition os_path_getsize :: "string \<Rightarrow> state \<Rightarrow> (py_exception + nat) \<times> state" where
  "os_path_getsize p s =
     ((case files s p of None \<Rightarrow> Inl FileNotFoundError | Some b \<Rightarrow> Inr (length b)),
      fs_call (GetSize p) s)"

section \<open>The stages\<close>

subsection \<open>\<^verbatim>\<open>get_cmd_argv\<close>\<close>

text \<open>
  With four entries in \<^verbatim>\<open>sys.argv\<close> the three arguments are stored, each stripped of
  quotes and then of whitespace. An empty argument or another count calls
  \<^verbatim>\<open>sys.exit(INVALID_ARG_ERR)\<close>, which the handler of the method does not catch.
\<close>

definition strip_arg :: "string \<Rightarrow> string" where
  "strip_arg a = strip (strip_chars [CHR 0x27] a)"

definition get_cmd_argv :: "env \<Rightarrow> state \<Rightarrow> outcome \<times> state" where
  "get_cmd_argv env s =
     (if length (sys_argv env) = 4 then
        let s' = s\<lparr>aws_bucket_name := strip_arg (sys_argv env ! 1),
                   url_file_path := strip_arg (sys_argv env ! 2),
                   sheet_name := strip_arg (sys_argv env ! 3)\<rparr>
        in if aws_bucket_name s' \<noteq> [] \<and> url_file_path s' \<noteq> [] \<and> sheet_name s' \<noteq> []
           then (Ret True, s')
           else (SysExit INVALID_ARG_ERR, s')
      else (SysExit INVALID_ARG_ERR, s))"

subsection \<open>\<^verbatim>\<open>connect\<close>\<close>

text \<open>
  A \<^verbatim>\<open>requests.get\<close> that raises leaves the stored response as it was. A response that
  is \<^verbatim>\<open>None\<close> is stored; the message of that branch reads its status code, which
  raises, and the handler returns the initial \<^verbatim>\<open>False\<close>.
\<close>

definition connect :: "env \<Rightarrow> state \<Rightarrow> bool \<times> state" where
  "connect env s =
     (case requests_get env (url_file_path s) of
        Inl e \<Rightarrow> (False, s)
      | Inr r \<Rightarrow>
          (let s' = s\<lparr>response := r\<rparr>
           in case r of
                Some resp \<Rightarrow> (True, s')
              | None \<Rightarrow> (False, s')))"

subsection \<open>\<^verbatim>\<open>is_downloadable\<close>\<close>

text \<open>
  \<^verbatim>\<open>self.__response.headers.get(key, None)\<close>: an attribute error when the stored
  response is \<^verbatim>\<open>None\<close>.
\<close>

definition response_headers_get :: "state \<Rightarrow> string \<Rightarrow> py_exception + string option" where
  "response_headers_get s key =
     (case response s of
        None \<Rightarrow> Inl AttributeError
      | Some r \<Rightarrow> Inr (headers r key))"

text \<open>
  The body of the \<^verbatim>\<open>try\<close>: the value of \<^verbatim>\<open>ret_status\<close> when the body ends, and the
  exception that ended it, if any. The handler only prints, so the method returns that
  value of \<^verbatim>\<open>ret_status\<close>.
\<close>

definition is_downloadable_try :: "state \<Rightarrow> bool \<times> py_exception option" where
  "is_downloadable_try s =
     (let ret_status = True
      in case response_headers_get s ''Content-Type'' of
           Inl e \<Rightarrow> (ret_status, Some e)
         | Inr None \<Rightarrow> (False, None)
         | Inr (Some content_type) \<Rightarrow>
             (let ret_status =
                    (if str_in CONTENT_TYPE_TEXT (lower content_type) then False
                     else ret_status);
                  ret_status =
                    (if str_in CONTENT_TYPE_HTML (lower content_type) then False
                     else ret_status)
              in (ret_status, None)))"

definition is_downloadable :: "state \<Rightarrow> bool" where
  "is_downloadable s = fst (is_downloadable_try s)"

subsection \<open>\<^verbatim>\<open>get_extensions\<close>\<close>

text \<open>
  The list starts empty and stays so when the header is missing or a call raises:
  without \<^verbatim>\<open>all_ext_flag\<close>, \<^verbatim>\<open>guess_extension\<close> returns \<^verbatim>\<open>None\<close> for an unknown type
  and \<^verbatim>\<open>.split()\<close> on it is an attribute error.
\<close>

definition get_extensions :: "env \<Rightarrow> state \<Rightarrow> bool \<Rightarrow> bool \<Rightarrow> string list" where
  "get_extensions env s strict_flag all_ext_flag =
     (case response_headers_get s ''Content-Type'' of
        Inl e \<Rightarrow> []
      | Inr None \<Rightarrow> []
      | Inr (Some content_type) \<Rightarrow>
          if all_ext_flag then guess_all_extensions env content_type strict_flag
          else (case guess_extension env content_type strict_flag of
                  None \<Rightarrow> []
                | Some ext \<Rightarrow> split_ws ext))"

subsection \<open>\<^verbatim>\<open>download\<close>\<close>

text \<open>
  Reading the status code of a response that is \<^verbatim>\<open>None\<close> raises, and so does an
  \<^verbatim>\<open>open\<close> that fails; the handler returns the initial \<^verbatim>\<open>False\<close>.
  \<^verbatim>\<open>requests.codes.ok\<close> is 200.
\<close>

definition download :: "state \<Rightarrow> bool \<times> state" where
  "download s =
     (case response s of
        None \<Rightarrow> (False, s)
      | Some r \<Rightarrow>
          if status_code r = 200 then
            (let (old, s1) = os_path_isfile (OUTPUT_FILE_PATH s) s;
                 s2 = (if old then os_remove (OUTPUT_FILE_PATH s) s1 else s1)
             in case write_file (OUTPUT_FILE_PATH s) (content r) s2 of
                  (Some e, s3) \<Rightarrow> (False, s3)
                | (None, s3) \<Rightarrow>
                    (let (created, s4) = os_path_isfile (OUTPUT_FILE_PATH s) s3
                     in if created then
                          (case os_path_getsize (OUTPUT_FILE_PATH s) s4 of
                             (Inl e, s5) \<Rightarrow> (False, s5)
                           | (Inr file_size, s5) \<Rightarrow> (file_size > 0, s5))
                        else (False, s4)))
          else (False, s))"

subsection \<open>\<^verbatim>\<open>parse_file\<close>\<close>

text \<open>
  The operations on the data frame that the method calls.
  \<^verbatim>\<open>df.empty\<close>: no rows or no columns.
  \<^verbatim>\<open>df.where(pd.notnull(df), None)\<close>: every cell that is not null stays, and
  \<^verbatim>\<open>None\<close> is put in the place of every other cell. A column of dtype \<^verbatim>\<open>object\<close>
  stores that \<^verbatim>\<open>None\<close>; a column of another dtype casts it to its own missing value, so
  that the cell holds \<^verbatim>\<open>NaN\<close> as before. A cell beyond the listed dtypes is taken as
  one of an \<^verbatim>\<open>object\<close> column.
  \<^verbatim>\<open>df.to_dict('records')\<close>: one dictionary for each row, in row order, built from the
  pairs of column name and cell (the last pair of a name wins).
\<close>

definition df_empty :: "data_frame \<Rightarrow> bool" where
  "df_empty df = (rows df = [] \<or> columns df = [])"

definition notnull :: "py_value \<Rightarrow> bool" where
  "notnull v = (v \<noteq> NaN \<and> v \<noteq> PyNone)"

definition where_cell :: "dtype \<Rightarrow> py_value \<Rightarrow> py_value" where
  "where_cell d v =
     (if notnull v then v else if d = dtype_object then PyNone else NaN)"

fun where_row :: "dtype list \<Rightarrow> py_value list \<Rightarrow> py_value list" where
  "where_row ds [] = []"
| "where_row [] (v # vs) = where_cell dtype_object v # where_row [] vs"
| "where_row (d # ds) (v # vs) = where_cell d v # where_row ds vs"

definition where_notnull_None :: "data_frame \<Rightarrow> data_frame" where
  "where_notnull_None df = df\<lparr>rows := map (where_row (dtypes df)) (rows df)\<rparr>"

definition dict_of :: "(string \<times> py_value) list \<Rightarrow> py_dict" where
  "dict_of kvs = foldl (\<lambda>d (k, v). d(k \<mapsto> v)) Map.empty kvs"

definition to_dict_records :: "data_frame \<Rightarrow> py_dict list" where
  "to_dict_records df = map (\<lambda>row. dict_of (zip (columns df) row)) (rows df)"

text \<open>
  The sheet is looked up by its stripped name and read by its name as stored. Opening
  the workbook and reading the sheet may raise; so may \<^verbatim>\<open>open(OUTPUT_FILE_JSON, "w")\<close>,
  before anything is encoded, and \<^verbatim>\<open>json.dump\<close>, after the file was created.
\<close>

definition parse_file :: "env \<Rightarrow> state \<Rightarrow> bool \<times> state" where
  "parse_file env s =
     (let s1 = fs_call (ReadFile (OUTPUT_FILE_PATH s)) s
      in case ExcelFile_sheet_names env (files s (OUTPUT_FILE_PATH s)) of
           Inl e \<Rightarrow> (False, s1)
         | Inr sheet_names \<Rightarrow>
             if strip (sheet_name s) \<in> set sheet_names then
               (let s2 = fs_call (ReadFile (OUTPUT_FILE_PATH s)) s1
                in case read_excel env (files s (OUTPUT_FILE_PATH s)) (sheet_name s) of
                     Inl e \<Rightarrow> (False, s2)
                   | Inr xls_data_df \<Rightarrow>
                       if \<not> df_empty xls_data_df then
                         (let xls_data_df = where_notnull_None xls_data_df;
                              dict_list_records = to_dict_records xls_data_df
                          in if dict_list_records \<noteq> [] then
                               (let (text, raised) = json_dump env dict_list_records
                                in case write_file (OUTPUT_FILE_JSON env) text s2 of
                                     (Some e, s3) \<Rightarrow> (False, s3)
                                   | (None, s3) \<Rightarrow>
                                       (case raised of
                                          Some e \<Rightarrow> (False, s3)
                                        | None \<Rightarrow>
                                            (let (created, s4) =
                                                   os_path_isfile (OUTPUT_FILE_JSON env) s3
                                             in if created then
                                                  (case os_path_getsize (OUTPUT_FILE_JSON env) s4 of
                                                     (Inl e, s5) \<Rightarrow> (False, s5)
                                                   | (Inr file_size, s5) \<Rightarrow>
                                                       (file_size > 0, s5))
                                                else (False, s4))))
                             else (False, s2))
                       else (False, s2))
             else (False, s1))"

subsection \<open>\<^verbatim>\<open>upload_to_aws_s3\<close>\<close>

text \<open>
  The upload proper, the part of the method after the bucket is there: open the JSON
  file (which raises when it is missing) and put it under the key, with the ACL
  \<^verbatim>\<open>public-read\<close>.
\<close>

definition put_json :: "env \<Rightarrow> state \<Rightarrow> outcome \<times> state" where
  "put_json env s =
     (let s1 = fs_call (ReadFile (OUTPUT_FILE_JSON env)) s
      in case files s (OUTPUT_FILE_JSON env) of
           None \<Rightarrow> (Ret False, s1)
         | Some json_buf \<Rightarrow>
             (let s2 = s3_call (PutObject (lower (aws_bucket_name s)) ''public-read''
                                  (JSON_FILE_PATH_ON_AWS env) json_buf) s1
              in case s3_put_object env (lower (aws_bucket_name s)) ''public-read''
                        (JSON_FILE_PATH_ON_AWS env) json_buf of
                   Inl e \<Rightarrow> (Ret False, s2)
                 | Inr response_truthy \<Rightarrow> (Ret response_truthy, s2)))"

text \<open>
  The bucket is looked up by its lower-cased name among the lower-cased names of the
  existing buckets. A \<^verbatim>\<open>create_bucket\<close> that returns \<^verbatim>\<open>None\<close> calls
  \<^verbatim>\<open>sys.exit(S3_BUCKET_CR_ERR)\<close>; one that raises is caught like every other exception.
\<close>

definition upload_to_aws_s3 :: "env \<Rightarrow> state \<Rightarrow> outcome \<times> state" where
  "upload_to_aws_s3 env s =
     (let s1 = s3_call ListBuckets s
      in case s3_buckets_all env of
           Inl e \<Rightarrow> (Ret False, s1)
         | Inr bucket_names \<Rightarrow>
             if lower (aws_bucket_name s) \<notin> set (map lower bucket_names) then
               (let s2 = s3_call (CreateBucket (lower (aws_bucket_name s)) ''ap-south-1'') s1
                in case s3_create_bucket env (lower (aws_bucket_name s)) ''ap-south-1'' of
                     Inl e \<Rightarrow> (Ret False, s2)
                   | Inr cr_bucket_status \<Rightarrow>
                       if \<not> cr_bucket_status then (SysExit S3_BUCKET_CR_ERR, s2)
                       else put_json env s2)
             else put_json env s1)"

section \<open>The driver\<close>

text \<open>The extension that \<^verbatim>\<open>main\<close> takes from the URL.\<close>

definition url_file_ext :: "string \<Rightarrow> string" where
  "url_file_ext url =
     (let file_ext = (if length (split_on (CHR ''.'') url) > 0
                      then last (split_on (CHR ''.'') url) else [])
      in ''.'' @ strip file_ext)"

text \<open>Recording in the trace that a stage was called and what it returned.\<close>

definition log_stage :: "stage \<Rightarrow> outcome \<Rightarrow> state \<Rightarrow> state" where
  "log_stage st r s = s\<lparr>trace := trace s @ [(st, r)]\<rparr>"

text \<open>Creating the output directory if it is not there.\<close>

definition ensure_output_dir :: "state \<Rightarrow> state" where
  "ensure_output_dir s =
     (let (there, s1) = os_path_exists (path_dirname (OUTPUT_FILE_PATH s)) s
      in if \<not> there then os_makedirs (path_dirname (OUTPUT_FILE_PATH s)) s1 else s1)"

text \<open>
  \<^verbatim>\<open>main\<close>: the status that the process exits with, and the state it leaves. The status
  is the value returned by \<^verbatim>\<open>main\<close>, or the code of a \<^verbatim>\<open>sys.exit\<close> inside a stage.
  The stages catch their own exceptions and the statements of \<^verbatim>\<open>main\<close> itself do not
  raise on strings and on a disk without faults, so the handler of \<^verbatim>\<open>main\<close> has no
  branch here. The extension resolution is the part of \<^verbatim>\<open>main\<close> between the guard and
  the download; the trace records it as a stage.
\<close>

definition main :: "env \<Rightarrow> state \<Rightarrow> int \<times> state" where
  "main env s0 =
     (case get_cmd_argv env s0 of
        (SysExit code, s1) \<Rightarrow> (code, log_stage ArgValidation (SysExit code) s1)
      | (Ret status_argv, s1) \<Rightarrow>
          (let s1 = log_stage ArgValidation (Ret status_argv) s1
           in if status_argv then
                (let s2 = ensure_output_dir s1;
                     (status_connect, s3) = connect env s2;
                     s3 = log_stage Fetch (Ret status_connect) s3
                 in if status_connect then
                      (let status_downloadable = is_downloadable s3;
                           s4 = log_stage DownloadabilityCheck (Ret status_downloadable) s3
                       in if status_downloadable then
                            (let file_ext = url_file_ext (url_file_path s4);
                                 ext_list = get_extensions env s4 False True
                             in if ext_list \<noteq> [] \<and> file_ext \<in> set ext_list then
                                  (let s5 = log_stage ExtensionResolution (Ret True) s4;
                                       s5 = s5\<lparr>OUTPUT_FILE_PATH := OUTPUT_FILE_PATH s5 @ file_ext\<rparr>;
                                       (status_download, s6) = download s5;
                                       s6 = log_stage Persist (Ret status_download) s6
                                   in if status_download then
                                        (let (status_parse, s7) = parse_file env s6;
                                             s7 = log_stage ParseSerialize (Ret status_parse) s7
                                         in if status_parse then
                                              (case upload_to_aws_s3 env s7 of
                                                 (SysExit code, s8) \<Rightarrow>
                                                   (code, log_stage Upload (SysExit code) s8)
                                               | (Ret status_upload, s8) \<Rightarrow>
                                                   (if status_upload then SUCCESS else GENERIC_ERR,
                                                    log_stage Upload (Ret status_upload) s8))
                                            else (GENERIC_ERR, s7))
                                      else (GENERIC_ERR, s6))
                                else (GENERIC_ERR, log_stage ExtensionResolution (Ret False) s4))
                          else (GENERIC_ERR, s4))
                    else (GENERIC_ERR, s3))
              else (GENERIC_ERR, s1)))"

section \<open>Notions of the specification\<close>

text \<open>
  A header value contains a word case-insensitively when one of its contiguous parts
  equals the word up to case.
\<close>

definition contains_ignoring_case :: "string \<Rightarrow> string \<Rightarrow> bool" where
  "contains_ignoring_case needle hay =
     (\<exists>ps w ss. hay = ps @ w @ ss \<and> lower w = lower needle)"

text \<open>What a step has added to the logs of a state.\<close>

definition new_trace :: "state \<Rightarrow> state \<Rightarrow> (stage \<times> outcome) list" where
  "new_trace s s' = drop (length (trace s)) (trace s')"

definition new_fs_ops :: "state \<Rightarrow> state \<Rightarrow> fs_op list" where
  "new_fs_ops s s' = drop (length (fs_log s)) (fs_log s')"

definition new_s3_ops :: "state \<Rightarrow> state \<Rightarrow> s3_op list" where
  "new_s3_ops s s' = drop (length (s3_log s)) (s3_log s')"

text \<open>
  The pipeline as the specification describes it: a fixed list of stages, run in order;
  a stage that reports success hands its state to the next one, and the first stage that
  does not ends the run with a failure status and with the state as that stage left it.
\<close>

definition stage_order :: "stage list" where
  "stage_order =
     [ArgValidation, Fetch, DownloadabilityCheck, ExtensionResolution,
      Persist, ParseSerialize, Upload]"

type_synonym stage_fn = "state \<Rightarrow> outcome \<times> state"

fun spec_run_stages :: "(stage \<times> stage_fn) list \<Rightarrow> state \<Rightarrow> int \<times> state" where
  "spec_run_stages [] s = (SUCCESS, s)"
| "spec_run_stages ((st, f) # rest) s =
     (case f s of
        (Ret True, s') \<Rightarrow> spec_run_stages rest (log_stage st (Ret True) s')
      | (Ret False, s') \<Rightarrow> (GENERIC_ERR, log_stage st (Ret False) s')
      | (SysExit code, s') \<Rightarrow> (code, log_stage st (SysExit code) s'))"

text \<open>
  The stages of the specification in terms of the methods: the Fetcher (with the output
  directory made first), the Downloadability Guard, the Extension Resolver (which hands
  the resolved path to the Persister), the Persister and the Parser/Serializer.
\<close>

definition fetch_stage :: "env \<Rightarrow> stage_fn" where
  "fetch_stage env s = (let (ok, s') = connect env (ensure_output_dir s) in (Ret ok, s'))"

definition guard_stage :: stage_fn where
  "guard_stage s = (Ret (is_downloadable s), s)"

definition extension_stage :: "env \<Rightarrow> stage_fn" where
  "extension_stage env s =
     (if url_file_ext (url_file_path s) \<in> set (get_extensions env s False True)
      then (Ret True,
            s\<lparr>OUTPUT_FILE_PATH := OUTPUT_FILE_PATH s @ url_file_ext (url_file_path s)\<rparr>)
      else (Ret False, s))"

definition persist_stage :: stage_fn where
  "persist_stage s = (let (ok, s') = download s in (Ret ok, s'))"

definition parse_stage :: "env \<Rightarrow> stage_fn" where
  "parse_stage env s = (let (ok, s') = parse_file env s in (Ret ok, s'))"

definition spec_pipeline :: "env \<Rightarrow> (stage \<times> stage_fn) list" where
  "spec_pipeline env =
     [(ArgValidation, get_cmd_argv env),
      (Fetch, fetch_stage env),
      (DownloadabilityCheck, guard_stage),
      (ExtensionResolution, extension_stage env),
      (Persist, persist_stage),
      (ParseSerialize, parse_stage env),
      (Upload, upload_to_aws_s3 env)]"

text \<open>
  A trace and a status that follow a stage order: the stages appear in that order, each
  one after a success of the one before, and what the last one returned gives the status.
\<close>

fun follows_order :: "stage list \<Rightarrow> (stage \<times> outcome) list \<Rightarrow> int \<Rightarrow> bool" where
  "follows_order [] tr status = (tr = [] \<and> status = SUCCESS)"
| "follows_order (st # rest) [] status = False"
| "follows_order (st # rest) ((st', Ret True) # tr) status =
     (st' = st \<and> follows_order rest tr status)"
| "follows_order (st # rest) ((st', Ret False) # tr) status =
     (st' = st \<and> tr = [] \<and> status = GENERIC_ERR)"
| "follows_order (st # rest) ((st', SysExit code) # tr) status =
     (st' = st \<and> tr = [] \<and> status = code)"

text \<open>
  Nothing is rolled back between two states: the calls on the file system only grow,
  every file that was there is still there, and so is every file that was written.
\<close>

definition keeps_files :: "state \<Rightarrow> state \<Rightarrow> bool" where
  "keeps_files s s' \<longleftrightarrow>
     (\<exists>ops. fs_log s' = fs_log s @ ops) \<and>
     (\<forall>p. files s p \<noteq> None \<longrightarrow> files s' p \<noteq> None) \<and>
     (\<forall>p b. WriteFile p b \<in> set (new_fs_ops s s') \<longrightarrow> files s' p \<noteq> None)"

text \<open>The stages that a run of \<^verbatim>\<open>main\<close> has called, with what each one returned.\<close>

definition run_trace :: "env \<Rightarrow> state \<Rightarrow> (stage \<times> outcome) list" where
  "run_trace env s0 = new_trace s0 (snd (main env s0))"

section \<open>Example runs\<close>

text \<open>
  A run on the usage example of the script: a workbook behind a URL that ends in
  \<^verbatim>\<open>.xls\<close>, served as \<^verbatim>\<open>application/vnd.ms-excel\<close>, with one sheet of two rows, and a
  bucket that exists under another spelling.
\<close>

definition example_frame :: data_frame where
  "example_frame =
     \<lparr>columns = [''Code'', ''Name''],
      dtypes = [dtype_object, dtype_object],
      rows = [[PyStr ''A1'', PyStr ''Alpha''], [PyStr ''B2'', NaN]]\<rparr>"

definition example_response :: response where
  "example_response =
     \<lparr>status_code = 200,
      headers = [''Content-Type'' \<mapsto> ''application/vnd.ms-excel''],
      content = ''workbook''\<rparr>"

definition example_env :: env where
  "example_env =
     \<lparr>sys_argv = [''DataIngestion.py'', ''My-Bucket'', ''https://host/MIC.xls'', ''Sheet1''],
      SCRIPT_BASE_PATH = ''/app'',
      requests_get = (\<lambda>url. Inr (Some example_response)),
      guess_all_extensions =
        (\<lambda>t strict. if t = ''application/vnd.ms-excel'' then [''.xlb'', ''.xls''] else []),
      guess_extension =
        (\<lambda>t strict. if t = ''application/vnd.ms-excel'' then Some ''.xlb'' else None),
      ExcelFile_sheet_names =
        (\<lambda>file. case file of None \<Rightarrow> Inl FileNotFoundError | Some b \<Rightarrow> Inr [''Sheet1'']),
      read_excel =
        (\<lambda>file sheet. if sheet = ''Sheet1'' then Inr example_frame else Inl XLRDError),
      json_dump = (\<lambda>records. (''[{}, {}]'', None)),
      s3_buckets_all = Inr [''MY-bucket''],
      s3_create_bucket = (\<lambda>name location. Inr True),
      s3_put_object = (\<lambda>bucket acl key body. Inr True)\<rparr>"

definition example_state :: state where
  "example_state = init_state example_env Map.empty {}"

text \<open>
  The state of the example once the output directory is made and the response is stored.
\<close>

definition fetched_state :: state where
  "fetched_state =
     example_state\<lparr>aws_bucket_name := ''My-Bucket'', url_file_path := ''https://host/MIC.xls'',
       sheet_name := ''Sheet1'', response := Some example_response,
       OUTPUT_FILE_PATH := ''/app/output/dataingestion.xls'',
       dirs := {''/app/output''}\<rparr>"

text \<open>The same state with an error page as the response, and with no response.\<close>

definition html_state :: state where
  "html_state =
     fetched_state\<lparr>response :=
       Some (example_response\<lparr>headers := [''Content-Type'' \<mapsto> ''Text/HTML; charset=utf-8'']\<rparr>)\<rparr>"

definition no_response_state :: state where
  "no_response_state = fetched_state\<lparr>response := None\<rparr>"

text \<open>
  A response with status 404 while a file of an earlier run is at the target path.
\<close>

definition not_found_state :: state where
  "not_found_state =
     fetched_state\<lparr>response := Some (example_response\<lparr>status_code := 404\<rparr>),
       files := [''/app/output/dataingestion.xls'' \<mapsto> ''old'']\<rparr>"

text \<open>The example with a sheet name that the workbook does not have.\<close>

definition other_sheet_env :: env where
  "other_sheet_env =
     example_env\<lparr>sys_argv :=
       [''DataIngestion.py'', ''My-Bucket'', ''https://host/MIC.xls'', ''Sheet9'']\<rparr>"

text \<open>The example with a URL that ends in \<^verbatim>\<open>.csv\<close>.\<close>

definition csv_env :: env where
  "csv_env =
     example_env\<lparr>sys_argv :=
       [''DataIngestion.py'', ''My-Bucket'', ''https://host/MIC.csv'', ''Sheet1'']\<rparr>"

text \<open>The example with no bucket of that name, and a creation that returns \<^verbatim>\<open>None\<close>.\<close>

definition no_bucket_env :: env where
  "no_bucket_env =
     example_env\<lparr>s3_buckets_all := Inr [''other''],
       s3_create_bucket := (\<lambda>name location. Inr False)\<rparr>"

text \<open>The example with status 404 from the server.\<close>

definition not_found_env :: env where
  "not_found_env =
     example_env\<lparr>requests_get :=
       (\<lambda>url. Inr (Some (example_response\<lparr>status_code := 404\<rparr>)))\<rparr>"

text \<open>The fetched state of a second run: the file of the first run is at the target path.\<close>

definition rerun_state :: state where
  "rerun_state = fetched_state\<lparr>files := [''/app/output/dataingestion.xls'' \<mapsto> ''old'']\<rparr>"

text \<open>The state of the example once the workbook is on disk.\<close>

definition persisted_state :: state where
  "persisted_state =
     fetched_state\<lparr>files := [''/app/output/dataingestion.xls'' \<mapsto> ''workbook'']\<rparr>"

text \<open>The fetched state of a run whose output directory is missing.\<close>

definition no_dir_state :: state where
  "no_dir_state = fetched_state\<lparr>dirs := {}\<rparr>"

text \<open>
  A sheet with a column of numbers, of dtype \<^verbatim>\<open>float64\<close>, in which one cell is empty:
  header [Code, Qty], rows [A1, 1], [B2, empty], [C3, 2.5].
\<close>

definition qty_frame :: data_frame where
  "qty_frame =
     \<lparr>columns = [''Code'', ''Qty''],
      dtypes = [dtype_object, dtype_float64],
      rows = [[PyStr ''A1'', PyFloat 1 0], [PyStr ''B2'', NaN], [PyStr ''C3'', PyFloat 5 (- 1)]]\<rparr>"

definition qty_env :: env where
  "qty_env = example_env\<lparr>read_excel := (\<lambda>file sheet. Inr qty_frame)\<rparr>"

text \<open>The example with no bucket of that name, and a creation that raises.\<close>

definition raising_create_env :: env where
  "raising_create_env =
     example_env\<lparr>s3_buckets_all := Inr [''other''],
       s3_create_bucket := (\<lambda>name location. Inl ClientError)\<rparr>"

section \<open>Properties of the string operations\<close>

lemma char_eq_char_of_iff: "c = char_of n \<longleftrightarrow> take_bit 8 n = (of_char c :: nat)"
  using char_of_eq_iff [of n c] by auto

text \<open>Evaluating the operations on characters and on string literals.\<close>

lemmas lower_eval = lower_def code_point_def lower_char_def char_of_eq_iff char_eq_char_of_iff

lemmas strip_eval = strip_def strip_where_def code_point_def is_space_def

lemma starts_with_iff: "starts_with n h \<longleftrightarrow> (\<exists>ss. h = n @ ss)"
  by (induction n h rule: starts_with.induct) auto

lemma str_in_iff: "str_in n h \<longleftrightarrow> (\<exists>ps ss. h = ps @ n @ ss)"
proof (induction h)
  case Nil
  then show ?case by auto
next
  case (Cons c cs)
  show ?case
  proof
    assume "str_in n (c # cs)"
    then consider "starts_with n (c # cs)" | "str_in n cs" by auto
    then show "\<exists>ps ss. c # cs = ps @ n @ ss"
    proof cases
      case 1
      then obtain ss where "c # cs = n @ ss" by (auto simp: starts_with_iff)
      then have "c # cs = [] @ n @ ss" by simp
      then show ?thesis by blast
    next
      case 2
      then obtain ps ss where "cs = ps @ n @ ss" using Cons.IH by blast
      then have "c # cs = (c # ps) @ n @ ss" by simp
      then show ?thesis by blast
    qed
  next
    assume "\<exists>ps ss. c # cs = ps @ n @ ss"
    then obtain ps ss where eq: "c # cs = ps @ n @ ss" by blast
    show "str_in n (c # cs)"
    proof (cases ps)
      case Nil
      with eq have "starts_with n (c # cs)" by (auto simp: starts_with_iff)
      then show ?thesis by simp
    next
      case (Cons p ps')
      with eq have "cs = ps' @ n @ ss" by simp
      then have "str_in n cs" using Cons.IH by blast
      then show ?thesis by simp
    qed
  qed
qed

text \<open>
  Looking for a lower-case word in the lower-cased value is looking for the word in the
  value, case ignored.
\<close>

lemma str_in_lower_iff: "str_in (lower n) (lower h) \<longleftrightarrow> contains_ignoring_case n h"
proof
  assume "str_in (lower n) (lower h)"
  then obtain ps ss where "map lower_char h = ps @ (map lower_char n @ ss)"
    by (auto simp: str_in_iff lower_def)
  then obtain ps' r where h: "h = ps' @ r" and r: "map lower_char r = map lower_char n @ ss"
    using map_eq_append_conv [of lower_char h ps "map lower_char n @ ss"] by auto
  from r obtain w ss' where "r = w @ ss'" and "map lower_char w = map lower_char n"
    using map_eq_append_conv [of lower_char r "map lower_char n" ss] by auto
  with h show "contains_ignoring_case n h"
    unfolding contains_ignoring_case_def lower_def by blast
next
  assume "contains_ignoring_case n h"
  then obtain ps w ss where "h = ps @ w @ ss" and "lower w = lower n"
    by (auto simp: contains_ignoring_case_def)
  then have "lower h = lower ps @ lower n @ lower ss"
    by (simp add: lower_def)
  then show "str_in (lower n) (lower h)"
    unfolding str_in_iff by blast
qed

lemma lower_text: "lower ''text'' = ''text''"
  by (simp add: lower_eval)

lemma lower_html: "lower ''html'' = ''html''"
  by (simp add: lower_eval)

lemma str_in_text: "str_in ''text'' (lower ct) \<longleftrightarrow> contains_ignoring_case ''text'' ct"
  using str_in_lower_iff [of "''text''" ct] by (simp only: lower_text)

lemma str_in_html: "str_in ''html'' (lower ct) \<longleftrightarrow> contains_ignoring_case ''html'' ct"
  using str_in_lower_iff [of "''html''" ct] by (simp only: lower_html)

lemma split_on_not_Nil: "split_on sep s \<noteq> []"
  by (induction s) (auto split: list.splits)

lemma split_on_no_sep: "sep \<notin> set s \<Longrightarrow> split_on sep s = [s]"
  by (induction s) auto

lemma split_on_single: "split_on sep s = [w] \<Longrightarrow> sep \<notin> set s"
proof (induction s arbitrary: w)
  case Nil
  then show ?case by simp
next
  case (Cons c cs)
  show ?case
  proof (cases "c = sep")
    case True
    with Cons.prems show ?thesis by (simp add: split_on_not_Nil)
  next
    case False
    obtain v vs where sp: "split_on sep cs = v # vs"
      using split_on_not_Nil [of sep cs] by (cases "split_on sep cs") auto
    with Cons.prems False have "vs = []" by simp
    with sp have "sep \<notin> set cs" by (simp add: Cons.IH)
    with False show ?thesis by simp
  qed
qed

lemma last_split_on_append:
  "sep \<notin> set suf \<Longrightarrow> last (split_on sep (pre @ sep # suf)) = suf"
proof (induction pre)
  case Nil
  then show ?case by (simp add: split_on_not_Nil split_on_no_sep)
next
  case (Cons c pre)
  obtain v vs where sp: "split_on sep (pre @ sep # suf) = v # vs"
    using split_on_not_Nil [of sep "pre @ sep # suf"]
    by (cases "split_on sep (pre @ sep # suf)") auto
  have "vs \<noteq> []"
  proof
    assume "vs = []"
    with sp have "sep \<notin> set (pre @ sep # suf)"
      using split_on_single [of sep "pre @ sep # suf" v] by simp
    then show False by simp
  qed
  with sp Cons show ?case by auto
qed

lemma strip_where_id:
  assumes "s = [] \<or> (\<not> p (hd s) \<and> \<not> p (last s))"
  shows "strip_where p s = s"
proof (cases s rule: rev_cases)
  case Nil
  then show ?thesis by (simp add: strip_where_def)
next
  case (snoc cs c)
  with assms have h: "\<not> p (hd s)" and l: "\<not> p c" by auto
  from h have 1: "dropWhile p s = s" by (cases s) auto
  from l snoc have "dropWhile p (rev s) = rev s" by simp
  with 1 show ?thesis by (simp add: strip_where_def)
qed

section \<open>The Downloadability Guard\<close>

lemma is_downloadable_try_Some:
  "response s = Some r \<Longrightarrow>
   is_downloadable_try s =
     (case headers r ''Content-Type'' of
        None \<Rightarrow> (False, None)
      | Some ct \<Rightarrow> (\<not> str_in ''text'' (lower ct) \<and> \<not> str_in ''html'' (lower ct), None))"
  by (simp add: is_downloadable_try_def response_headers_get_def
      CONTENT_TYPE_TEXT_def CONTENT_TYPE_HTML_def split: option.splits)

lemma is_downloadable_try_None:
  "response s = None \<Longrightarrow> is_downloadable_try s = (True, Some AttributeError)"
  by (simp add: is_downloadable_try_def response_headers_get_def)

text \<open>
  C2. For a stored response, the guard answers not-downloadable exactly when the
  Content-Type header is missing or its value contains "text" or "html", case ignored,
  and downloadable otherwise. The answer reads the header alone: another body or status
  code in the response gives the same answer.
\<close>

theorem guard_classifies_by_content_type:
  assumes "response s = Some r"
  shows "(\<not> is_downloadable s \<longleftrightarrow>
            (case headers r ''Content-Type'' of
               None \<Rightarrow> True
             | Some ct \<Rightarrow>
                 contains_ignoring_case ''text'' ct \<or> contains_ignoring_case ''html'' ct))
       \<and> is_downloadable (s\<lparr>response := Some (r\<lparr>content := body, status_code := code\<rparr>)\<rparr>)
           = is_downloadable s"
proof -
  let ?s' = "s\<lparr>response := Some (r\<lparr>content := body, status_code := code\<rparr>)\<rparr>"
  have "response ?s' = Some (r\<lparr>content := body, status_code := code\<rparr>)"
    by simp
  then have "is_downloadable_try ?s' = is_downloadable_try s"
    using assms by (simp add: is_downloadable_try_Some)
  then show ?thesis
    using assms
    by (simp add: is_downloadable_def is_downloadable_try_Some str_in_text str_in_html
        split: option.splits)
qed

theorem guard_classifies_by_content_type_witness:
  "response html_state =
     Some (example_response\<lparr>headers := [''Content-Type'' \<mapsto> ''Text/HTML; charset=utf-8'']\<rparr>)
   \<and> \<not> is_downloadable html_state
   \<and> (contains_ignoring_case ''text'' ''Text/HTML; charset=utf-8''
       \<or> contains_ignoring_case ''html'' ''Text/HTML; charset=utf-8'')
   \<and> response fetched_state = Some example_response
   \<and> is_downloadable fetched_state
   \<and> \<not> contains_ignoring_case ''text'' ''application/vnd.ms-excel''"
proof -
  have r1: "response html_state =
     Some (example_response\<lparr>headers := [''Content-Type'' \<mapsto> ''Text/HTML; charset=utf-8'']\<rparr>)"
    by (simp add: html_state_def)
  have r2: "response fetched_state = Some example_response"
    by (simp add: fetched_state_def)
  have d1: "\<not> is_downloadable html_state"
    by (simp add: is_downloadable_def is_downloadable_try_Some [OF r1] lower_eval)
  have d2: "is_downloadable fetched_state"
    by (simp add: is_downloadable_def is_downloadable_try_Some [OF r2] example_response_def
        lower_eval)
  show ?thesis
    using r1 r2 d1 d2
      guard_classifies_by_content_type [OF r1, where body = "[]" and code = 0]
      guard_classifies_by_content_type [OF r2, where body = "[]" and code = 0]
    by (simp add: example_response_def)
qed

text \<open>
  C9. When the body of the guard raises, the guard answers downloadable: the result
  starts as \<^verbatim>\<open>True\<close> and the handler leaves it. A stored response that is \<^verbatim>\<open>None\<close>
  raises on the first line of the body.
\<close>

theorem guard_fails_open:
  "(snd (is_downloadable_try s) \<noteq> None \<longrightarrow> is_downloadable s)
   \<and> (response s = None \<longrightarrow>
        snd (is_downloadable_try s) = Some AttributeError \<and> is_downloadable s)"
proof (cases "response s")
  case None
  then show ?thesis by (simp add: is_downloadable_def is_downloadable_try_None)
next
  case (Some r)
  then show ?thesis by (simp add: is_downloadable_try_Some split: option.splits)
qed

theorem guard_fails_open_witness:
  "response no_response_state = None
   \<and> snd (is_downloadable_try no_response_state) \<noteq> None
   \<and> is_downloadable no_response_state"
  using guard_fails_open [of no_response_state]
  by (simp add: no_response_state_def)

section \<open>The Persister\<close>

lemmas download_fs =
  fs_call_def os_path_isfile_def os_remove_def write_file_def os_path_getsize_def

lemma can_open_frame [simp]:
  "can_open p (s\<lparr>fs_log := l\<rparr>) = can_open p s"
  "can_open p (s\<lparr>files := f\<rparr>) = can_open p s"
  by (simp_all add: can_open_def dir_exists_def)

lemma write_file_ok:
  "can_open p s \<Longrightarrow>
   write_file p b s =
     (None, s\<lparr>files := (files s)(p \<mapsto> b), fs_log := fs_log s @ [OpenWrite p, WriteFile p b]\<rparr>)"
  by (simp add: write_file_def fs_call_def can_open_def dir_exists_def Let_def)

lemma write_file_blocked:
  "\<not> can_open p s \<Longrightarrow>
   fst (write_file p b s) \<noteq> None
   \<and> snd (write_file p b s) = s\<lparr>fs_log := fs_log s @ [OpenWrite p]\<rparr>"
  by (auto simp: write_file_def fs_call_def can_open_def dir_exists_def Let_def)

lemma os_path_isfile_eq:
  "os_path_isfile p s = (files s p \<noteq> None \<and> can_open p s, s\<lparr>fs_log := fs_log s @ [IsFile p]\<rparr>)"
  by (simp add: os_path_isfile_def fs_call_def can_open_def)

lemma download_other_status:
  "response s = Some r \<Longrightarrow> status_code r \<noteq> 200 \<Longrightarrow> download s = (False, s)"
  by (simp add: download_def)

lemma download_None: "response s = None \<Longrightarrow> download s = (False, s)"
  by (simp add: download_def)

text \<open>
  With status 200 and a path that can be opened: the calls that are made, the file that
  results, and the answer.
\<close>

lemma download_ok:
  assumes "response s = Some r" and "status_code r = 200"
    and "can_open (OUTPUT_FILE_PATH s) s"
  shows "download s =
    (content r \<noteq> [],
     s\<lparr>files := (files s)(OUTPUT_FILE_PATH s \<mapsto> content r),
       fs_log := fs_log s @ [IsFile (OUTPUT_FILE_PATH s)]
         @ (if files s (OUTPUT_FILE_PATH s) \<noteq> None then [Remove (OUTPUT_FILE_PATH s)] else [])
         @ [OpenWrite (OUTPUT_FILE_PATH s), WriteFile (OUTPUT_FILE_PATH s) (content r),
            IsFile (OUTPUT_FILE_PATH s), GetSize (OUTPUT_FILE_PATH s)]\<rparr>)"
  using assms
  by (simp add: download_def os_path_isfile_eq os_remove_def os_path_getsize_def fs_call_def
      write_file_ok)

text \<open>With status 200 and a path that cannot be opened: nothing is deleted or written.\<close>

lemma download_blocked:
  assumes "response s = Some r" and "status_code r = 200"
    and "\<not> can_open (OUTPUT_FILE_PATH s) s"
  shows "download s =
    (False, s\<lparr>fs_log := fs_log s @ [IsFile (OUTPUT_FILE_PATH s), OpenWrite (OUTPUT_FILE_PATH s)]\<rparr>)"
proof -
  obtain e where "write_file (OUTPUT_FILE_PATH s) (content r)
      (s\<lparr>fs_log := fs_log s @ [IsFile (OUTPUT_FILE_PATH s)]\<rparr>) =
      (Some e, s\<lparr>fs_log := fs_log s @ [IsFile (OUTPUT_FILE_PATH s), OpenWrite (OUTPUT_FILE_PATH s)]\<rparr>)"
    using write_file_blocked [of "OUTPUT_FILE_PATH s"
        "s\<lparr>fs_log := fs_log s @ [IsFile (OUTPUT_FILE_PATH s)]\<rparr>" "content r"] assms(3)
    by (cases "write_file (OUTPUT_FILE_PATH s) (content r)
      (s\<lparr>fs_log := fs_log s @ [IsFile (OUTPUT_FILE_PATH s)]\<rparr>)") auto
  then show ?thesis
    using assms by (simp add: download_def os_path_isfile_eq)
qed

lemma download_unchanged:
  assumes "\<not> (\<exists>r. response s = Some r \<and> status_code r = 200)"
  shows "download s = (False, s)"
proof (cases "response s")
  case None
  then show ?thesis by (simp add: download_None)
next
  case (Some r)
  with assms have "status_code r \<noteq> 200" by simp
  with Some show ?thesis by (simp add: download_other_status)
qed

lemma connect_Some:
  "requests_get env (url_file_path s) = Inr (Some r) \<Longrightarrow>
   connect env s = (True, s\<lparr>response := Some r\<rparr>)"
  by (simp add: connect_def)

lemma example_can_open:
  "can_open ''/app/output/dataingestion.xls'' fetched_state"
  "can_open ''/app/output/dataingestion.xls'' rerun_state"
  "\<not> can_open ''/app/output/dataingestion.xls'' no_dir_state"
  by (simp_all add: can_open_def dir_exists_def path_dirname_def rerun_state_def
      no_dir_state_def fetched_state_def)

text \<open>
  C10. The Persister touches the disk only for a response with status code 200. For a
  response with another status code it makes no call on the file system, leaves every
  file (one at the target path too) as it is, and answers failure; any change of the
  state by the Persister means that the status code was 200. The fetch stage accepts
  such a response all the same: it answers success for every response that is not
  \<^verbatim>\<open>None\<close>, and the Persister then refuses it.
\<close>

theorem persister_skips_other_status:
  "(response s = Some r \<and> status_code r \<noteq> 200 \<longrightarrow> download s = (False, s))
   \<and> (snd (download s) \<noteq> s \<longrightarrow> (\<exists>r'. response s = Some r' \<and> status_code r' = 200))
   \<and> (requests_get env (url_file_path s) = Inr (Some r) \<and> status_code r \<noteq> 200 \<longrightarrow>
        fst (connect env s) \<and>
        download (snd (connect env s)) = (False, snd (connect env s)))"
proof -
  have "snd (download s) = s" if "\<not> (\<exists>r'. response s = Some r' \<and> status_code r' = 200)"
    using that by (simp add: download_unchanged)
  moreover have "download (s\<lparr>response := Some r\<rparr>) = (False, s\<lparr>response := Some r\<rparr>)"
    if "status_code r \<noteq> 200"
    using that by (simp add: download_other_status)
  ultimately show ?thesis
    by (auto simp: download_other_status connect_Some)
qed

theorem persister_skips_other_status_witness:
  "response not_found_state = Some (example_response\<lparr>status_code := 404\<rparr>)
   \<and> status_code (example_response\<lparr>status_code := 404\<rparr>) \<noteq> 200
   \<and> download not_found_state = (False, not_found_state)
   \<and> files not_found_state ''/app/output/dataingestion.xls'' = Some ''old''
   \<and> snd (download fetched_state) \<noteq> fetched_state
   \<and> requests_get not_found_env (url_file_path example_state)
        = Inr (Some (example_response\<lparr>status_code := 404\<rparr>))
   \<and> fst (connect not_found_env example_state)"
proof -
  have r: "response fetched_state = Some example_response"
    and c: "status_code example_response = 200"
    and o: "can_open (OUTPUT_FILE_PATH fetched_state) fetched_state"
    by (simp_all add: fetched_state_def example_response_def can_open_def dir_exists_def
        path_dirname_def)
  have "fs_log (snd (download fetched_state)) \<noteq> fs_log fetched_state"
    by (simp add: download_ok [OF r c o])
  then have changed: "snd (download fetched_state) \<noteq> fetched_state"
    by auto
  show ?thesis
    using changed
      persister_skips_other_status [of not_found_state
        "example_response\<lparr>status_code := 404\<rparr>" not_found_env]
      persister_skips_other_status [of fetched_state example_response example_env]
      persister_skips_other_status [of example_state
        "example_response\<lparr>status_code := 404\<rparr>" not_found_env]
    by (simp add: not_found_state_def not_found_env_def example_env_def)
qed

text \<open>
  C6, as the claim states it, fails on two inputs. With the status code 404 and a file
  of an earlier run at the target path, the Persister neither deletes nor writes, and
  answers failure although a file of non-zero size is at the path. With the status code
  200 and a target path whose directory is missing, the \<^verbatim>\<open>open\<close> raises: the bytes are
  not written, and no file is at the path afterwards.
\<close>

theorem persister_not_always_writing_counterexample:
  "\<not> fst (download not_found_state)
   \<and> fst (os_path_isfile (OUTPUT_FILE_PATH not_found_state) (snd (download not_found_state)))
   \<and> files (snd (download not_found_state)) (OUTPUT_FILE_PATH not_found_state) = Some ''old''
   \<and> 0 < length ''old''
   \<and> fs_log (snd (download not_found_state)) = []
   \<and> response no_dir_state = Some example_response
   \<and> status_code example_response = 200
   \<and> content example_response = ''workbook''
   \<and> \<not> fst (download no_dir_state)
   \<and> files (snd (download no_dir_state)) (OUTPUT_FILE_PATH no_dir_state) = None
   \<and> fs_log (snd (download no_dir_state)) =
       [IsFile ''/app/output/dataingestion.xls'', OpenWrite ''/app/output/dataingestion.xls'']"
  by (simp add: download_def download_fs dir_exists_def path_dirname_def Let_def
      not_found_state_def no_dir_state_def fetched_state_def example_state_def init_state_def
      example_response_def)

text \<open>
  C6, amended. For every response with status code 200, whatever its bytes and the
  target path: the Persister asks whether a file is at the path, deletes it if so, and
  only then opens the path for writing. When the path can be opened (it is not a
  directory, and its directory is there) the Persister writes the bytes, and the file at
  the path then holds these bytes; when it cannot, nothing is written and the files are
  as before. The answer is success exactly when a file is at the path afterwards with a
  size above zero. A second run with the same path and bytes leaves the same files, with
  the same answer.
\<close>

theorem persister_replaces_and_verifies:
  assumes "response s = Some r" and "status_code r = 200"
  shows "fs_log (snd (download s)) =
           fs_log s @ [IsFile (OUTPUT_FILE_PATH s)]
           @ (if fst (os_path_isfile (OUTPUT_FILE_PATH s) s)
              then [Remove (OUTPUT_FILE_PATH s)] else [])
           @ [OpenWrite (OUTPUT_FILE_PATH s)]
           @ (if can_open (OUTPUT_FILE_PATH s) s
              then [WriteFile (OUTPUT_FILE_PATH s) (content r), IsFile (OUTPUT_FILE_PATH s),
                    GetSize (OUTPUT_FILE_PATH s)]
              else [])
       \<and> files (snd (download s)) =
           (if can_open (OUTPUT_FILE_PATH s) s
            then (files s)(OUTPUT_FILE_PATH s \<mapsto> content r) else files s)
       \<and> (fst (download s) \<longleftrightarrow>
            fst (os_path_isfile (OUTPUT_FILE_PATH s) (snd (download s)))
            \<and> (\<exists>b. files (snd (download s)) (OUTPUT_FILE_PATH s) = Some b \<and> 0 < length b))
       \<and> files (snd (download (snd (download s)))) = files (snd (download s))
       \<and> fst (download (snd (download s))) = fst (download s)"
proof (cases "can_open (OUTPUT_FILE_PATH s) s")
  case True
  let ?s' = "snd (download s)"
  let ?p = "OUTPUT_FILE_PATH s"
  note ok = download_ok [OF assms True]
  have r': "response ?s' = Some r" and p': "OUTPUT_FILE_PATH ?s' = ?p"
    and f': "files ?s' = (files s)(?p \<mapsto> content r)"
    and b': "fst (download s) = (content r \<noteq> [])"
    and d': "dirs ?s' = dirs s"
    using assms by (simp_all add: ok)
  have o': "can_open (OUTPUT_FILE_PATH ?s') ?s'"
    using True by (simp add: can_open_def dir_exists_def p' d')
  have old: "fst (os_path_isfile ?p s) \<longleftrightarrow> files s ?p \<noteq> None"
    using True by (simp add: os_path_isfile_def can_open_def)
  have new: "fst (os_path_isfile ?p ?s')"
    using True by (simp add: os_path_isfile_def can_open_def f' d' dir_exists_def)
  have l': "fs_log ?s' = fs_log s @ [IsFile ?p]
           @ (if fst (os_path_isfile ?p s) then [Remove ?p] else [])
           @ [OpenWrite ?p] @ [WriteFile ?p (content r), IsFile ?p, GetSize ?p]"
    unfolding old by (simp add: ok)
  have again: "files (snd (download ?s')) = (files ?s')(OUTPUT_FILE_PATH ?s' \<mapsto> content r)"
    and b'': "fst (download ?s') = (content r \<noteq> [])"
    by (simp_all add: download_ok [OF r' assms(2) o'])
  have same: "files (snd (download ?s')) = files ?s'"
    unfolding again p' f' by simp
  have size: "fst (download s) \<longleftrightarrow>
      fst (os_path_isfile ?p ?s') \<and> (\<exists>b. files ?s' ?p = Some b \<and> 0 < length b)"
    unfolding b' f' using new by simp
  show ?thesis
    using True l' f' size same b' b'' by simp
next
  case False
  let ?s' = "snd (download s)"
  let ?p = "OUTPUT_FILE_PATH s"
  note blocked = download_blocked [OF assms False]
  have r': "response ?s' = Some r" and p': "OUTPUT_FILE_PATH ?s' = ?p"
    and f': "files ?s' = files s" and b': "\<not> fst (download s)"
    and d': "dirs ?s' = dirs s"
    and l': "fs_log ?s' = fs_log s @ [IsFile ?p, OpenWrite ?p]"
    using assms by (simp_all add: blocked)
  have o': "\<not> can_open (OUTPUT_FILE_PATH ?s') ?s'"
    using False by (simp add: can_open_def dir_exists_def p' d')
  have old: "\<not> fst (os_path_isfile ?p s)"
    using False by (auto simp: os_path_isfile_def can_open_def)
  have new: "\<not> fst (os_path_isfile ?p ?s')"
    using False by (auto simp: os_path_isfile_def can_open_def d' dir_exists_def)
  have again: "files (snd (download ?s')) = files ?s'" and b'': "\<not> fst (download ?s')"
    by (simp_all add: download_blocked [OF r' assms(2) o'])
  show ?thesis
    using False l' f' old new again b' b'' by simp
qed

theorem persister_replaces_and_verifies_witness:
  "response rerun_state = Some example_response
   \<and> status_code example_response = 200
   \<and> can_open ''/app/output/dataingestion.xls'' rerun_state
   \<and> fs_log (snd (download rerun_state)) =
       [IsFile ''/app/output/dataingestion.xls'', Remove ''/app/output/dataingestion.xls'',
        OpenWrite ''/app/output/dataingestion.xls'',
        WriteFile ''/app/output/dataingestion.xls'' ''workbook'',
        IsFile ''/app/output/dataingestion.xls'', GetSize ''/app/output/dataingestion.xls'']
   \<and> files (snd (download rerun_state)) = [''/app/output/dataingestion.xls'' \<mapsto> ''workbook'']
   \<and> fst (download rerun_state)
   \<and> files (snd (download (snd (download rerun_state)))) = files (snd (download rerun_state))"
proof -
  have r: "response rerun_state = Some example_response"
    and c: "status_code example_response = 200"
    by (simp_all add: rerun_state_def fetched_state_def example_response_def)
  have p: "OUTPUT_FILE_PATH rerun_state = ''/app/output/dataingestion.xls''"
    and f: "files rerun_state = [''/app/output/dataingestion.xls'' \<mapsto> ''old'']"
    and l: "fs_log rerun_state = []"
    and b: "content example_response = ''workbook''"
    by (simp_all add: rerun_state_def fetched_state_def example_state_def init_state_def
        example_response_def)
  have o: "can_open (OUTPUT_FILE_PATH rerun_state) rerun_state"
    by (simp add: p example_can_open)
  have i: "fst (os_path_isfile ''/app/output/dataingestion.xls'' rerun_state)"
    by (simp add: os_path_isfile_eq f example_can_open)
  have d: "fst (download rerun_state)"
    by (simp add: download_ok [OF r c o] b)
  show ?thesis
    using persister_replaces_and_verifies [OF r c] r c d
    by (simp add: p f l b i example_can_open)
qed

section \<open>The extension taken from the URL\<close>

text \<open>
  C3. For a URL with no '.', the code does not derive the one-character string ".":
  \<^verbatim>\<open>url.split('.')\<close> is then the list of the URL alone, never the empty list, so the
  branch that gives the empty extension is never taken, and the derived extension is
  '.' followed by the whole URL.
\<close>

theorem url_without_dot_gives_whole_url:
  "CHR ''.'' \<notin> set ''http://localhost/report''
   \<and> split_on CHR ''.'' ''http://localhost/report'' = [''http://localhost/report'']
   \<and> url_file_ext ''http://localhost/report'' = ''.http://localhost/report''
   \<and> url_file_ext ''http://localhost/report'' \<noteq> ''.''"
  by (simp add: url_file_ext_def strip_eval)

section \<open>The Parser/Serializer\<close>

lemmas parse_fs = fs_call_def os_path_isfile_def write_file_def os_path_getsize_def

lemma new_fs_ops_append [simp]:
  "fs_log s' = fs_log s @ ops \<Longrightarrow> new_fs_ops s s' = ops"
  by (simp add: new_fs_ops_def)

lemma new_fs_ops_fs_call [simp]: "new_fs_ops s (fs_call op s) = [op]"
  by (simp add: new_fs_ops_def fs_call_def)

lemma parse_file_no_sheet:
  assumes "ExcelFile_sheet_names env (files s (OUTPUT_FILE_PATH s)) = Inr names"
    and "strip (sheet_name s) \<notin> set names"
  shows "parse_file env s = (False, fs_call (ReadFile (OUTPUT_FILE_PATH s)) s)"
  using assms by (simp add: parse_file_def)

text \<open>
  Every run of the method that does not reach the write leaves the files as they were
  and only reads the workbook.
\<close>

lemma parse_file_no_write:
  assumes "\<not> (\<exists>names df.
      ExcelFile_sheet_names env (files s (OUTPUT_FILE_PATH s)) = Inr names
      \<and> strip (sheet_name s) \<in> set names
      \<and> read_excel env (files s (OUTPUT_FILE_PATH s)) (sheet_name s) = Inr df
      \<and> \<not> df_empty df
      \<and> to_dict_records (where_notnull_None df) \<noteq> [])"
  shows "\<not> fst (parse_file env s)
       \<and> files (snd (parse_file env s)) = files s
       \<and> (\<exists>ops. fs_log (snd (parse_file env s)) = fs_log s @ ops
              \<and> set ops \<subseteq> {ReadFile (OUTPUT_FILE_PATH s)})"
  using assms
  by (auto simp: parse_file_def fs_call_def Let_def split: sum.splits)

text \<open>A run that reaches the write: the file written, the calls made, the answer.\<close>

lemma parse_file_write:
  assumes "ExcelFile_sheet_names env (files s (OUTPUT_FILE_PATH s)) = Inr names"
    and "strip (sheet_name s) \<in> set names"
    and "read_excel env (files s (OUTPUT_FILE_PATH s)) (sheet_name s) = Inr df"
    and "\<not> df_empty df"
    and "to_dict_records (where_notnull_None df) \<noteq> []"
    and "can_open (OUTPUT_FILE_JSON env) s"
  shows "files (snd (parse_file env s)) =
           (files s)(OUTPUT_FILE_JSON env \<mapsto>
              fst (json_dump env (to_dict_records (where_notnull_None df))))
       \<and> (\<exists>ops. fs_log (snd (parse_file env s)) =
              fs_log s @ [ReadFile (OUTPUT_FILE_PATH s), ReadFile (OUTPUT_FILE_PATH s),
                OpenWrite (OUTPUT_FILE_JSON env),
                WriteFile (OUTPUT_FILE_JSON env)
                  (fst (json_dump env (to_dict_records (where_notnull_None df))))] @ ops
              \<and> set ops \<subseteq> {IsFile (OUTPUT_FILE_JSON env), GetSize (OUTPUT_FILE_JSON env)})
       \<and> (fst (parse_file env s) \<longleftrightarrow>
            snd (json_dump env (to_dict_records (where_notnull_None df))) = None
            \<and> fst (json_dump env (to_dict_records (where_notnull_None df))) \<noteq> [])"
  using assms
  by (auto simp: parse_file_def os_path_isfile_eq os_path_getsize_def fs_call_def write_file_ok
      Let_def split: prod.splits option.splits)

text \<open>A run that reaches the write at a path that cannot be opened writes nothing.\<close>

lemma parse_file_blocked:
  assumes "ExcelFile_sheet_names env (files s (OUTPUT_FILE_PATH s)) = Inr names"
    and "strip (sheet_name s) \<in> set names"
    and "read_excel env (files s (OUTPUT_FILE_PATH s)) (sheet_name s) = Inr df"
    and "\<not> df_empty df"
    and "to_dict_records (where_notnull_None df) \<noteq> []"
    and "\<not> can_open (OUTPUT_FILE_JSON env) s"
  shows "\<not> fst (parse_file env s)"
    and "files (snd (parse_file env s)) = files s"
    and "fs_log (snd (parse_file env s)) =
           fs_log s @ [ReadFile (OUTPUT_FILE_PATH s), ReadFile (OUTPUT_FILE_PATH s),
             OpenWrite (OUTPUT_FILE_JSON env)]"
proof -
  let ?s2 = "fs_call (ReadFile (OUTPUT_FILE_PATH s)) (fs_call (ReadFile (OUTPUT_FILE_PATH s)) s)"
  let ?t = "fst (json_dump env (to_dict_records (where_notnull_None df)))"
  have "\<not> can_open (OUTPUT_FILE_JSON env) ?s2"
    using assms(6) by (simp add: fs_call_def)
  from write_file_blocked [OF this, of ?t]
  obtain e where "write_file (OUTPUT_FILE_JSON env) ?t ?s2 =
      (Some e, ?s2\<lparr>fs_log := fs_log ?s2 @ [OpenWrite (OUTPUT_FILE_JSON env)]\<rparr>)"
    by (cases "write_file (OUTPUT_FILE_JSON env) ?t ?s2") auto
  then have "parse_file env s =
      (False, ?s2\<lparr>fs_log := fs_log ?s2 @ [OpenWrite (OUTPUT_FILE_JSON env)]\<rparr>)"
    using assms by (simp add: parse_file_def Let_def case_prod_beta)
  then show "\<not> fst (parse_file env s)"
    and "files (snd (parse_file env s)) = files s"
    and "fs_log (snd (parse_file env s)) =
           fs_log s @ [ReadFile (OUTPUT_FILE_PATH s), ReadFile (OUTPUT_FILE_PATH s),
             OpenWrite (OUTPUT_FILE_JSON env)]"
    by (simp_all add: fs_call_def)
qed

text \<open>
  C7. When the stripped sheet name is not among the sheet names of the workbook, the
  parse stage answers failure, leaves every file as it was (so it does not create the
  JSON file) and makes no call on the file system but the read of the workbook. The
  stage writes a file only after the sheet was found, its table was not empty and the
  records were built; the file then written is the JSON file, with what the encoder
  wrote for these records.
\<close>

theorem missing_sheet_writes_no_json:
  "(ExcelFile_sheet_names env (files s (OUTPUT_FILE_PATH s)) = Inr names
      \<and> strip (sheet_name s) \<notin> set names \<longrightarrow>
      \<not> fst (parse_file env s)
      \<and> files (snd (parse_file env s)) = files s
      \<and> new_fs_ops s (snd (parse_file env s)) = [ReadFile (OUTPUT_FILE_PATH s)])
   \<and> (WriteFile p b \<in> set (new_fs_ops s (snd (parse_file env s)))
        \<or> files (snd (parse_file env s)) \<noteq> files s \<longrightarrow>
        (\<exists>names' df.
           ExcelFile_sheet_names env (files s (OUTPUT_FILE_PATH s)) = Inr names'
           \<and> strip (sheet_name s) \<in> set names'
           \<and> read_excel env (files s (OUTPUT_FILE_PATH s)) (sheet_name s) = Inr df
           \<and> \<not> df_empty df
           \<and> to_dict_records (where_notnull_None df) \<noteq> []
           \<and> files (snd (parse_file env s)) =
               (files s)(OUTPUT_FILE_JSON env \<mapsto>
                  fst (json_dump env (to_dict_records (where_notnull_None df))))))"
proof (intro conjI impI)
  assume a: "ExcelFile_sheet_names env (files s (OUTPUT_FILE_PATH s)) = Inr names
      \<and> strip (sheet_name s) \<notin> set names"
  then have "parse_file env s = (False, fs_call (ReadFile (OUTPUT_FILE_PATH s)) s)"
    by (simp add: parse_file_no_sheet)
  then show "\<not> fst (parse_file env s)"
    and "files (snd (parse_file env s)) = files s"
    and "new_fs_ops s (snd (parse_file env s)) = [ReadFile (OUTPUT_FILE_PATH s)]"
    by (simp_all add: fs_call_def)
next
  let ?reached = "\<exists>names df.
      ExcelFile_sheet_names env (files s (OUTPUT_FILE_PATH s)) = Inr names
      \<and> strip (sheet_name s) \<in> set names
      \<and> read_excel env (files s (OUTPUT_FILE_PATH s)) (sheet_name s) = Inr df
      \<and> \<not> df_empty df
      \<and> to_dict_records (where_notnull_None df) \<noteq> []"
  assume w: "WriteFile p b \<in> set (new_fs_ops s (snd (parse_file env s)))
        \<or> files (snd (parse_file env s)) \<noteq> files s"
  have ?reached
  proof (rule ccontr)
    assume "\<not> ?reached"
    from parse_file_no_write [OF this] w show False by auto
  qed
  then obtain names' df where r:
    "ExcelFile_sheet_names env (files s (OUTPUT_FILE_PATH s)) = Inr names'"
    "strip (sheet_name s) \<in> set names'"
    "read_excel env (files s (OUTPUT_FILE_PATH s)) (sheet_name s) = Inr df"
    "\<not> df_empty df"
    "to_dict_records (where_notnull_None df) \<noteq> []"
    by blast
  have o: "can_open (OUTPUT_FILE_JSON env) s"
  proof (rule ccontr)
    assume "\<not> can_open (OUTPUT_FILE_JSON env) s"
    from parse_file_blocked [OF r this] w show False by simp
  qed
  from parse_file_write [OF r o] r
  show "\<exists>names' df.
           ExcelFile_sheet_names env (files s (OUTPUT_FILE_PATH s)) = Inr names'
           \<and> strip (sheet_name s) \<in> set names'
           \<and> read_excel env (files s (OUTPUT_FILE_PATH s)) (sheet_name s) = Inr df
           \<and> \<not> df_empty df
           \<and> to_dict_records (where_notnull_None df) \<noteq> []
           \<and> files (snd (parse_file env s)) =
               (files s)(OUTPUT_FILE_JSON env \<mapsto>
                  fst (json_dump env (to_dict_records (where_notnull_None df))))"
    by blast
qed

lemma example_paths:
  "OUTPUT_FILE_PATH_init example_env = ''/app/output/dataingestion''"
  "OUTPUT_FILE_JSON example_env = ''/app/output/dataingestion.json''"
  "OUTPUT_FILE_PATH persisted_state = ''/app/output/dataingestion.xls''"
  "files persisted_state = [''/app/output/dataingestion.xls'' \<mapsto> ''workbook'']"
  "sheet_name persisted_state = ''Sheet1''"
  "fs_log persisted_state = []"
  "can_open ''/app/output/dataingestion.json'' persisted_state"
  by (simp_all add: OUTPUT_FILE_PATH_init_def OUTPUT_FILE_JSON_def output_dir_def path_join_def
      example_env_def persisted_state_def fetched_state_def example_state_def init_state_def
      can_open_def dir_exists_def path_dirname_def)

lemma example_sheets:
  "ExcelFile_sheet_names example_env (Some b) = Inr [''Sheet1'']"
  "read_excel example_env file ''Sheet1'' = Inr example_frame"
  "json_dump example_env records = (''[{}, {}]'', None)"
  by (simp_all add: example_env_def)

lemma example_frame_records:
  "\<not> df_empty example_frame"
  "to_dict_records (where_notnull_None example_frame) =
     [[''Code'' \<mapsto> PyStr ''A1'', ''Name'' \<mapsto> PyStr ''Alpha''],
      [''Code'' \<mapsto> PyStr ''B2'', ''Name'' \<mapsto> PyNone]]"
  by (simp_all add: df_empty_def example_frame_def to_dict_records_def where_notnull_None_def
      where_cell_def dict_of_def notnull_def)

theorem missing_sheet_writes_no_json_witness:
  "ExcelFile_sheet_names example_env
       (files (persisted_state\<lparr>sheet_name := ''Sheet9''\<rparr>)
          (OUTPUT_FILE_PATH (persisted_state\<lparr>sheet_name := ''Sheet9''\<rparr>))) = Inr [''Sheet1'']
   \<and> strip (sheet_name (persisted_state\<lparr>sheet_name := ''Sheet9''\<rparr>)) \<notin> set [''Sheet1'']
   \<and> \<not> fst (parse_file example_env (persisted_state\<lparr>sheet_name := ''Sheet9''\<rparr>))
   \<and> files (snd (parse_file example_env (persisted_state\<lparr>sheet_name := ''Sheet9''\<rparr>)))
        ''/app/output/dataingestion.json'' = None
   \<and> files (snd (parse_file example_env persisted_state)) \<noteq> files persisted_state
   \<and> strip (sheet_name persisted_state) \<in> set [''Sheet1'']"
proof -
  let ?s9 = "persisted_state\<lparr>sheet_name := ''Sheet9''\<rparr>"
  have h1: "ExcelFile_sheet_names example_env (files ?s9 (OUTPUT_FILE_PATH ?s9)) = Inr [''Sheet1'']"
    by (simp add: example_paths example_sheets)
  have h2: "strip (sheet_name ?s9) \<notin> set [''Sheet1'']"
    by (simp add: strip_eval)
  have h3: "strip (sheet_name persisted_state) \<in> set [''Sheet1'']"
    by (simp add: example_paths strip_eval)
  have "files (snd (parse_file example_env persisted_state)) ''/app/output/dataingestion.json''
          = Some ''[{}, {}]''"
    using h3
    by (simp add: parse_file_def os_path_isfile_eq os_path_getsize_def fs_call_def
        write_file_ok example_paths example_sheets example_frame_records)
  then have h4: "files (snd (parse_file example_env persisted_state)) \<noteq> files persisted_state"
    by (auto simp: example_paths)
  show ?thesis
    using h1 h2 h3 h4
      missing_sheet_writes_no_json [of example_env ?s9 "[''Sheet1'']"]
      missing_sheet_writes_no_json [of example_env persisted_state]
    by (simp add: example_paths)
qed

section \<open>Records\<close>

lemma qty_paths:
  "OUTPUT_FILE_JSON qty_env = ''/app/output/dataingestion.json''"
  "ExcelFile_sheet_names qty_env (Some b) = Inr [''Sheet1'']"
  "read_excel qty_env file sheet = Inr qty_frame"
  "json_dump qty_env records = (''[{}, {}]'', None)"
  by (simp_all add: qty_env_def example_paths example_env_def OUTPUT_FILE_JSON_def
      output_dir_def path_join_def)

text \<open>
  C4. A cell that was missing does not always hold null in its record. In a column of
  numbers (dtype \<^verbatim>\<open>float64\<close>) the \<^verbatim>\<open>None\<close> that \<^verbatim>\<open>where\<close> puts in the place of a
  missing cell is cast back to \<^verbatim>\<open>NaN\<close>: for the sheet with header [Code, Qty] and rows
  [A1, 1], [B2, empty], [C3, 2.5] the parse stage succeeds, builds three records in the
  order of the rows, keyed by the header, and the second record holds \<^verbatim>\<open>NaN\<close>, not
  \<^verbatim>\<open>None\<close>, under Qty; these are the records handed to the encoder for the JSON file.
\<close>

theorem float_column_keeps_NaN:
  "read_excel qty_env (files persisted_state (OUTPUT_FILE_PATH persisted_state))
       (sheet_name persisted_state) = Inr qty_frame
   \<and> rows qty_frame ! 1 ! 1 = NaN
   \<and> to_dict_records (where_notnull_None qty_frame) =
       [[''Code'' \<mapsto> PyStr ''A1'', ''Qty'' \<mapsto> PyFloat 1 0],
        [''Code'' \<mapsto> PyStr ''B2'', ''Qty'' \<mapsto> NaN],
        [''Code'' \<mapsto> PyStr ''C3'', ''Qty'' \<mapsto> PyFloat 5 (- 1)]]
   \<and> (to_dict_records (where_notnull_None qty_frame) ! 1) ''Qty'' = Some NaN
   \<and> (to_dict_records (where_notnull_None qty_frame) ! 1) ''Qty'' \<noteq> Some PyNone
   \<and> fst (parse_file qty_env persisted_state)
   \<and> files (snd (parse_file qty_env persisted_state)) (OUTPUT_FILE_JSON qty_env) =
       Some (fst (json_dump qty_env (to_dict_records (where_notnull_None qty_frame))))"
proof -
  have recs: "to_dict_records (where_notnull_None qty_frame) =
       [[''Code'' \<mapsto> PyStr ''A1'', ''Qty'' \<mapsto> PyFloat 1 0],
        [''Code'' \<mapsto> PyStr ''B2'', ''Qty'' \<mapsto> NaN],
        [''Code'' \<mapsto> PyStr ''C3'', ''Qty'' \<mapsto> PyFloat 5 (- 1)]]"
    by (simp add: qty_frame_def to_dict_records_def where_notnull_None_def where_cell_def
        dict_of_def notnull_def)
  have frame: "\<not> df_empty qty_frame" "rows qty_frame ! 1 ! 1 = NaN"
    by (simp_all add: df_empty_def qty_frame_def)
  have sheet: "strip (sheet_name persisted_state) \<in> set [''Sheet1'']"
    by (simp add: example_paths strip_eval)
  have run: "parse_file qty_env persisted_state =
      (True, persisted_state
         \<lparr>files := (files persisted_state)(''/app/output/dataingestion.json'' \<mapsto> ''[{}, {}]''),
          fs_log := [ReadFile ''/app/output/dataingestion.xls'',
            ReadFile ''/app/output/dataingestion.xls'',
            OpenWrite ''/app/output/dataingestion.json'',
            WriteFile ''/app/output/dataingestion.json'' ''[{}, {}]'',
            IsFile ''/app/output/dataingestion.json'',
            GetSize ''/app/output/dataingestion.json'']\<rparr>)"
    using sheet
    by (simp add: parse_file_def os_path_isfile_eq os_path_getsize_def fs_call_def
        write_file_ok example_paths qty_paths frame recs)
  show ?thesis
    using frame by (simp add: run recs qty_paths)
qed

section \<open>Runs of the pipeline\<close>

subsection \<open>The driver and the pipeline of the specification\<close>

lemma log_stage_fields [simp]:
  "log_stage st r (s\<lparr>OUTPUT_FILE_PATH := p\<rparr>) = (log_stage st r s)\<lparr>OUTPUT_FILE_PATH := p\<rparr>"
  "OUTPUT_FILE_PATH (log_stage st r s) = OUTPUT_FILE_PATH s"
  "url_file_path (log_stage st r s) = url_file_path s"
  "response (log_stage st r s) = response s"
  "files (log_stage st r s) = files s"
  "fs_log (log_stage st r s) = fs_log s"
  "s3_log (log_stage st r s) = s3_log s"
  "trace (log_stage st r s) = trace s @ [(st, r)]"
  by (simp_all add: log_stage_def)

lemma get_extensions_log_stage [simp]:
  "get_extensions env (log_stage st r s) a b = get_extensions env s a b"
  by (simp add: get_extensions_def response_headers_get_def)

lemma is_downloadable_log_stage [simp]:
  "is_downloadable (log_stage st r s) = is_downloadable s"
  by (simp add: is_downloadable_def is_downloadable_try_def response_headers_get_def)

lemma main_refines_spec: "main env s0 = spec_run_stages (spec_pipeline env) s0"
  unfolding main_def spec_pipeline_def
  by (simp add: fetch_stage_def guard_stage_def extension_stage_def persist_stage_def
      parse_stage_def Let_def
      split: prod.splits outcome.splits bool.splits)

subsection \<open>Traces\<close>

lemma new_trace_append [simp]: "trace s' = trace s @ tr \<Longrightarrow> new_trace s s' = tr"
  by (simp add: new_trace_def)

text \<open>
  Stages that leave the trace alone are recorded in order, each after a success of the
  one before; an exit code in the trace is one that its stage can exit with.
\<close>

lemma spec_run_stages_trace:
  assumes pres: "\<And>st f x. (st, f) \<in> set stages \<Longrightarrow> trace (snd (f x)) = trace x"
    and exits: "\<And>st f x c. (st, f) \<in> set stages \<Longrightarrow> fst (f x) = SysExit c \<Longrightarrow> Q st c"
  shows "\<exists>tr. trace (snd (spec_run_stages stages s)) = trace s @ tr
            \<and> follows_order (map fst stages) tr (fst (spec_run_stages stages s))
            \<and> (\<forall>st c. (st, SysExit c) \<in> set tr \<longrightarrow> Q st c)"
  using assms
proof (induction stages arbitrary: s)
  case Nil
  then show ?case by simp
next
  case (Cons p stages)
  obtain st f where p: "p = (st, f)" by (cases p)
  obtain r s' where f: "f s = (r, s')" by (cases "f s")
  have t: "trace s' = trace s"
    using Cons.prems(1) [of st f s] p f by simp
  show ?case
  proof (cases r)
    case (SysExit c)
    have "Q st c" using Cons.prems(2) [of st f s c] p f SysExit by simp
    with p f t SysExit show ?thesis by simp
  next
    case (Ret b)
    show ?thesis
    proof (cases b)
      case False
      with p f t Ret show ?thesis by simp
    next
      case True
      have pres': "trace (snd (f' x)) = trace x" if "(st', f') \<in> set stages" for st' f' x
        using Cons.prems(1) [of st' f' x] that by simp
      have exits': "Q st' c" if "(st', f') \<in> set stages" and "fst (f' x) = SysExit c"
        for st' f' x c
        using Cons.prems(2) [of st' f' x c] that by simp
      have "\<exists>tr. trace (snd (spec_run_stages stages (log_stage st (Ret True) s'))) =
                  trace (log_stage st (Ret True) s') @ tr
            \<and> follows_order (map fst stages) tr
                (fst (spec_run_stages stages (log_stage st (Ret True) s')))
            \<and> (\<forall>st c. (st, SysExit c) \<in> set tr \<longrightarrow> Q st c)"
        using pres' exits' by (rule Cons.IH)
      then obtain tr where
        "trace (snd (spec_run_stages stages (log_stage st (Ret True) s'))) =
           trace s @ (st, Ret True) # tr"
        "follows_order (map fst stages) tr
           (fst (spec_run_stages stages (log_stage st (Ret True) s')))"
        "\<forall>st c. (st, SysExit c) \<in> set tr \<longrightarrow> Q st c"
        using t by auto
      with p f Ret True show ?thesis by auto
    qed
  qed
qed

text \<open>What a trace that follows the order looks like.\<close>

lemma follows_order_shape:
  "follows_order order tr status \<Longrightarrow>
     map fst tr = take (length tr) order
     \<and> (\<forall>i. Suc i < length tr \<longrightarrow> snd (tr ! i) = Ret True)
     \<and> (order \<noteq> [] \<longrightarrow> tr \<noteq> [])
     \<and> (tr \<noteq> [] \<longrightarrow>
          (case snd (last tr) of
             Ret True \<Rightarrow> length tr = length order \<and> status = SUCCESS
           | Ret False \<Rightarrow> status = GENERIC_ERR
           | SysExit code \<Rightarrow> status = code))"
proof (induction order tr status rule: follows_order.induct)
  case (3 st rest st' tr status)
  then have ih: "map fst tr = take (length tr) rest"
    "\<forall>i. Suc i < length tr \<longrightarrow> snd (tr ! i) = Ret True"
    "rest \<noteq> [] \<longrightarrow> tr \<noteq> []"
    "tr \<noteq> [] \<longrightarrow>
          (case snd (last tr) of
             Ret True \<Rightarrow> length tr = length rest \<and> status = SUCCESS
           | Ret False \<Rightarrow> status = GENERIC_ERR
           | SysExit code \<Rightarrow> status = code)"
    and st: "st' = st" and fo: "follows_order rest tr status"
    by simp_all
  have nth: "snd (((st', Ret True) # tr) ! i) = Ret True" if "Suc i < length ((st', Ret True) # tr)" for i
    using that ih(2) by (cases i) auto
  have last: "(case snd (last ((st', Ret True) # tr)) of
             Ret True \<Rightarrow> length ((st', Ret True) # tr) = length (st # rest) \<and> status = SUCCESS
           | Ret False \<Rightarrow> status = GENERIC_ERR
           | SysExit code \<Rightarrow> status = code)"
  proof (cases tr)
    case Nil
    with fo ih(3) have "rest = []" by auto
    with fo Nil show ?thesis by simp
  next
    case (Cons e es)
    then have l: "last ((st', Ret True) # tr) = last tr" and ne: "tr \<noteq> []"
      by simp_all
    from ih(4) ne have "case snd (last tr) of
             Ret True \<Rightarrow> length tr = length rest \<and> status = SUCCESS
           | Ret False \<Rightarrow> status = GENERIC_ERR
           | SysExit code \<Rightarrow> status = code"
      by blast
    then show ?thesis
      unfolding l by (auto split: outcome.splits bool.splits)
  qed
  from ih(1) st nth last show ?case by simp
qed simp_all

subsection \<open>No rollback\<close>

lemma keeps_filesI:
  assumes "fs_log s' = fs_log s @ ops"
    and "\<And>p. files s p \<noteq> None \<Longrightarrow> files s' p \<noteq> None"
    and "\<And>p b. WriteFile p b \<in> set ops \<Longrightarrow> files s' p \<noteq> None"
  shows "keeps_files s s'"
  using assms unfolding keeps_files_def by (simp add: new_fs_ops_def)

lemma keeps_files_same:
  "fs_log s' = fs_log s \<Longrightarrow> files s' = files s \<Longrightarrow> keeps_files s s'"
  by (rule keeps_filesI [where ops = "[]"]) simp_all

lemma keeps_files_trans:
  assumes "keeps_files a b" and "keeps_files b c"
  shows "keeps_files a c"
proof -
  from assms(1) obtain o1 where o1: "fs_log b = fs_log a @ o1"
    and f1: "\<And>p. files a p \<noteq> None \<Longrightarrow> files b p \<noteq> None"
    and w1: "\<And>p x. WriteFile p x \<in> set o1 \<Longrightarrow> files b p \<noteq> None"
    unfolding keeps_files_def by (auto simp: new_fs_ops_def)
  from assms(2) obtain o2 where o2: "fs_log c = fs_log b @ o2"
    and f2: "\<And>p. files b p \<noteq> None \<Longrightarrow> files c p \<noteq> None"
    and w2: "\<And>p x. WriteFile p x \<in> set o2 \<Longrightarrow> files c p \<noteq> None"
    unfolding keeps_files_def by (auto simp: new_fs_ops_def)
  show ?thesis
  proof (rule keeps_filesI [where ops = "o1 @ o2"])
    show "fs_log c = fs_log a @ o1 @ o2" using o1 o2 by simp
    show "files c p \<noteq> None" if "files a p \<noteq> None" for p
      using that f1 f2 by blast
    show "files c p \<noteq> None" if "WriteFile p x \<in> set (o1 @ o2)" for p x
      using that w1 w2 f2 by auto
  qed
qed

lemma keeps_files_log_stage: "keeps_files s s' \<Longrightarrow> keeps_files s (log_stage st r s')"
  by (simp add: keeps_files_def new_fs_ops_def)

lemma spec_run_stages_keeps:
  assumes "\<And>st f x. (st, f) \<in> set stages \<Longrightarrow> keeps_files x (snd (f x))"
  shows "keeps_files s (snd (spec_run_stages stages s))"
  using assms
proof (induction stages arbitrary: s)
  case Nil
  then show ?case by (simp add: keeps_files_same)
next
  case (Cons p stages)
  obtain st f where p: "p = (st, f)" by (cases p)
  obtain r s' where f: "f s = (r, s')" by (cases "f s")
  have k: "keeps_files s s'"
    using Cons.prems [of st f s] p f by simp
  have rest: "keeps_files x (snd (f' x))" if "(st', f') \<in> set stages" for st' f' x
    using Cons.prems [of st' f' x] that by simp
  have "keeps_files (log_stage st (Ret True) s')
          (snd (spec_run_stages stages (log_stage st (Ret True) s')))"
    using rest by (rule Cons.IH)
  with k have "keeps_files s (snd (spec_run_stages stages (log_stage st (Ret True) s')))"
    using keeps_files_trans keeps_files_log_stage by blast
  with k p f show ?case
    by (cases r) (auto simp: keeps_files_log_stage split: bool.splits)
qed

subsection \<open>What each stage does to the state\<close>

lemma get_cmd_argv_frame:
  "trace (snd (get_cmd_argv env s)) = trace s"
  "files (snd (get_cmd_argv env s)) = files s"
  "fs_log (snd (get_cmd_argv env s)) = fs_log s"
  by (simp_all add: get_cmd_argv_def Let_def)

lemma get_cmd_argv_exit:
  "fst (get_cmd_argv env s) = SysExit c \<Longrightarrow> c = INVALID_ARG_ERR"
  by (simp add: get_cmd_argv_def Let_def split: if_splits)

lemma ensure_output_dir_frame:
  "trace (ensure_output_dir s) = trace s"
  "files (ensure_output_dir s) = files s"
  "url_file_path (ensure_output_dir s) = url_file_path s"
  "\<exists>ops. fs_log (ensure_output_dir s) = fs_log s @ ops \<and> (\<forall>p b. WriteFile p b \<notin> set ops)"
  by (simp_all add: ensure_output_dir_def fs_call_def os_path_exists_def os_makedirs_def)

lemma connect_frame:
  "trace (snd (connect env s)) = trace s"
  "files (snd (connect env s)) = files s"
  "fs_log (snd (connect env s)) = fs_log s"
  by (simp_all add: connect_def Let_def split: sum.splits option.splits)

lemma fetch_stage_frame:
  "trace (snd (fetch_stage env s)) = trace s"
  "files (snd (fetch_stage env s)) = files s"
  "\<exists>ops. fs_log (snd (fetch_stage env s)) = fs_log s @ ops \<and> (\<forall>p b. WriteFile p b \<notin> set ops)"
  "fst (fetch_stage env s) \<noteq> SysExit c"
  using ensure_output_dir_frame [of s]
  by (simp_all add: fetch_stage_def connect_frame case_prod_beta)

lemma guard_stage_frame:
  "snd (guard_stage s) = s"
  "fst (guard_stage s) \<noteq> SysExit c"
  by (simp_all add: guard_stage_def)

lemma extension_stage_frame:
  "trace (snd (extension_stage env s)) = trace s"
  "files (snd (extension_stage env s)) = files s"
  "fs_log (snd (extension_stage env s)) = fs_log s"
  "fst (extension_stage env s) \<noteq> SysExit c"
  by (simp_all add: extension_stage_def)

lemma download_trace: "trace (snd (download s)) = trace s"
proof (cases "\<exists>r. response s = Some r \<and> status_code r = 200")
  case True
  then show ?thesis
    by (cases "can_open (OUTPUT_FILE_PATH s) s") (auto simp: download_ok download_blocked)
next
  case False
  then show ?thesis by (simp add: download_unchanged)
qed

lemma download_keeps: "keeps_files s (snd (download s))"
proof (cases "\<exists>r. response s = Some r \<and> status_code r = 200")
  case True
  then obtain r where r: "response s = Some r" "status_code r = 200" by blast
  show ?thesis
  proof (cases "can_open (OUTPUT_FILE_PATH s) s")
    case True
    show ?thesis
      by (rule keeps_filesI [where ops = "[IsFile (OUTPUT_FILE_PATH s)]
           @ (if files s (OUTPUT_FILE_PATH s) \<noteq> None then [Remove (OUTPUT_FILE_PATH s)] else [])
           @ [OpenWrite (OUTPUT_FILE_PATH s), WriteFile (OUTPUT_FILE_PATH s) (content r),
              IsFile (OUTPUT_FILE_PATH s), GetSize (OUTPUT_FILE_PATH s)]"])
        (auto simp: download_ok [OF r True] split: if_splits)
  next
    case False
    show ?thesis
      by (rule keeps_filesI
          [where ops = "[IsFile (OUTPUT_FILE_PATH s), OpenWrite (OUTPUT_FILE_PATH s)]"])
        (auto simp: download_blocked [OF r False])
  qed
next
  case False
  then show ?thesis by (simp add: download_unchanged keeps_files_same)
qed

lemma persist_stage_frame:
  "trace (snd (persist_stage s)) = trace s"
  "keeps_files s (snd (persist_stage s))"
  "fst (persist_stage s) \<noteq> SysExit c"
  using download_trace [of s] download_keeps [of s]
  by (simp_all add: persist_stage_def case_prod_beta)

lemma parse_file_trace: "trace (snd (parse_file env s)) = trace s"
  by (auto simp: parse_file_def parse_fs Let_def
      split: sum.splits prod.splits option.splits)

lemma parse_file_keeps: "keeps_files s (snd (parse_file env s))"
proof (cases "\<exists>names df.
      ExcelFile_sheet_names env (files s (OUTPUT_FILE_PATH s)) = Inr names
      \<and> strip (sheet_name s) \<in> set names
      \<and> read_excel env (files s (OUTPUT_FILE_PATH s)) (sheet_name s) = Inr df
      \<and> \<not> df_empty df
      \<and> to_dict_records (where_notnull_None df) \<noteq> []")
  case False
  from parse_file_no_write [OF this] obtain ops where
    "files (snd (parse_file env s)) = files s"
    "fs_log (snd (parse_file env s)) = fs_log s @ ops"
    "set ops \<subseteq> {ReadFile (OUTPUT_FILE_PATH s)}"
    by blast
  then show ?thesis
    by (intro keeps_filesI [where ops = ops]) auto
next
  case True
  then obtain names df where r:
    "ExcelFile_sheet_names env (files s (OUTPUT_FILE_PATH s)) = Inr names"
    "strip (sheet_name s) \<in> set names"
    "read_excel env (files s (OUTPUT_FILE_PATH s)) (sheet_name s) = Inr df"
    "\<not> df_empty df"
    "to_dict_records (where_notnull_None df) \<noteq> []"
    by blast
  let ?t = "fst (json_dump env (to_dict_records (where_notnull_None df)))"
  show ?thesis
  proof (cases "can_open (OUTPUT_FILE_JSON env) s")
    case True
    from parse_file_write [OF r True] obtain ops where
      f: "files (snd (parse_file env s)) = (files s)(OUTPUT_FILE_JSON env \<mapsto> ?t)"
      and l: "fs_log (snd (parse_file env s)) =
        fs_log s @ [ReadFile (OUTPUT_FILE_PATH s), ReadFile (OUTPUT_FILE_PATH s),
          OpenWrite (OUTPUT_FILE_JSON env), WriteFile (OUTPUT_FILE_JSON env) ?t] @ ops"
      and o: "set ops \<subseteq> {IsFile (OUTPUT_FILE_JSON env), GetSize (OUTPUT_FILE_JSON env)}"
      by blast
    show ?thesis
      by (rule keeps_filesI [OF l]) (use f o in auto)
  next
    case False
    show ?thesis
      by (rule keeps_filesI [OF parse_file_blocked(3) [OF r False]])
        (simp_all add: parse_file_blocked(2) [OF r False])
  qed
qed

lemma parse_stage_frame:
  "trace (snd (parse_stage env s)) = trace s"
  "keeps_files s (snd (parse_stage env s))"
  "fst (parse_stage env s) \<noteq> SysExit c"
  using parse_file_trace [of env s] parse_file_keeps [of s env]
  by (simp_all add: parse_stage_def case_prod_beta)

section \<open>The Uploader\<close>

lemma new_s3_ops_append [simp]: "s3_log s' = s3_log s @ ops \<Longrightarrow> new_s3_ops s s' = ops"
  by (simp add: new_s3_ops_def)

lemma path_basename_join:
  assumes "CHR ''/'' \<notin> set name" and "name \<noteq> []"
  shows "path_basename (path_join dir name) = name"
proof -
  have not_abs: "\<not> starts_with ''/'' name"
    using assms by (cases name) auto
  have tw: "takeWhile (\<lambda>c. c \<noteq> CHR ''/'') (rev name) = rev name"
    using assms(1) by (intro takeWhile_eq_all_conv [THEN iffD2]) auto
  have 1: "path_basename (d @ ''/'' @ name) = name" for d
    using assms(1) by (simp add: path_basename_def takeWhile_tail tw)
  show ?thesis
  proof (cases "dir = [] \<or> last dir = CHR ''/''")
    case False
    then show ?thesis using not_abs 1 [of dir] by (simp add: path_join_def)
  next
    case True
    show ?thesis
    proof (cases "dir = []")
      case True
      then show ?thesis using not_abs by (simp add: path_join_def path_basename_def tw)
    next
      case False
      with True have "dir = butlast dir @ ''/''"
        by (metis append_butlast_last_id)
      then have "path_join dir name = butlast dir @ ''/'' @ name"
        using not_abs True by (simp add: path_join_def)
      then show ?thesis using 1 by simp
    qed
  qed
qed

text \<open>The key is the same for every location of the script.\<close>

lemma JSON_FILE_PATH_ON_AWS_fixed:
  "JSON_FILE_PATH_ON_AWS env = ''DataIngestion/dataingestion.json''"
  by (simp add: JSON_FILE_PATH_ON_AWS_def OUTPUT_FILE_JSON_def path_basename_join)

lemma put_json_missing:
  "files s (OUTPUT_FILE_JSON env) = None \<Longrightarrow>
   put_json env s = (Ret False, fs_call (ReadFile (OUTPUT_FILE_JSON env)) s)"
  by (simp add: put_json_def)

lemma put_json_found:
  "files s (OUTPUT_FILE_JSON env) = Some body \<Longrightarrow>
   put_json env s =
     ((case s3_put_object env (lower (aws_bucket_name s)) ''public-read''
              ''DataIngestion/dataingestion.json'' body of
         Inl e \<Rightarrow> Ret False
       | Inr response_truthy \<Rightarrow> Ret response_truthy),
      s3_call (PutObject (lower (aws_bucket_name s)) ''public-read''
                 ''DataIngestion/dataingestion.json'' body)
        (fs_call (ReadFile (OUTPUT_FILE_JSON env)) s))"
  by (simp add: put_json_def JSON_FILE_PATH_ON_AWS_fixed split: sum.splits)

lemma s3_call_fields [simp]:
  "files (s3_call op s) = files s"
  "aws_bucket_name (s3_call op s) = aws_bucket_name s"
  "s3_log (s3_call op s) = s3_log s @ [op]"
  "fs_log (s3_call op s) = fs_log s"
  "trace (s3_call op s) = trace s"
  by (simp_all add: s3_call_def)

lemma fs_call_fields [simp]:
  "files (fs_call op s) = files s"
  "aws_bucket_name (fs_call op s) = aws_bucket_name s"
  "s3_log (fs_call op s) = s3_log s"
  "fs_log (fs_call op s) = fs_log s @ [op]"
  "trace (fs_call op s) = trace s"
  by (simp_all add: fs_call_def)

text \<open>What the upload proper answers and calls, from a state \<open>x\<close> of the same run.\<close>

lemma put_json_shape:
  "fst (put_json env x) \<noteq> SysExit c"
  "trace (snd (put_json env x)) = trace x"
  "files (snd (put_json env x)) = files x"
  "fs_log (snd (put_json env x)) = fs_log x @ [ReadFile (OUTPUT_FILE_JSON env)]"
  "\<exists>pt. s3_log (snd (put_json env x)) = s3_log x @ pt
      \<and> (pt = [] \<and> fst (put_json env x) = Ret False
          \<or> (\<exists>body. files x (OUTPUT_FILE_JSON env) = Some body
                \<and> pt = [PutObject (lower (aws_bucket_name x)) ''public-read''
                          ''DataIngestion/dataingestion.json'' body]
                \<and> (fst (put_json env x) = Ret True \<longleftrightarrow>
                     s3_put_object env (lower (aws_bucket_name x)) ''public-read''
                       ''DataIngestion/dataingestion.json'' body = Inr True)
                \<and> (\<forall>e. s3_put_object env (lower (aws_bucket_name x)) ''public-read''
                       ''DataIngestion/dataingestion.json'' body = Inl e \<longrightarrow>
                     fst (put_json env x) = Ret False)))"
  by (cases "files x (OUTPUT_FILE_JSON env)";
      simp add: put_json_missing put_json_found split: sum.splits)+

lemma upload_list_raises:
  "s3_buckets_all env = Inl e \<Longrightarrow>
   upload_to_aws_s3 env s = (Ret False, s3_call ListBuckets s)"
  by (simp add: upload_to_aws_s3_def)

lemma upload_present:
  assumes "s3_buckets_all env = Inr names"
    and "\<exists>n \<in> set names. lower n = lower (aws_bucket_name s)"
  shows "upload_to_aws_s3 env s = put_json env (s3_call ListBuckets s)"
proof -
  from assms(2) obtain n where "n \<in> set names" and "lower n = lower (aws_bucket_name s)"
    by blast
  then have "lower (aws_bucket_name s) \<in> lower ` set names"
    by (metis imageI)
  with assms(1) show ?thesis
    by (simp add: upload_to_aws_s3_def Let_def)
qed

lemma upload_absent:
  "s3_buckets_all env = Inr names \<Longrightarrow> \<forall>n \<in> set names. lower n \<noteq> lower (aws_bucket_name s) \<Longrightarrow>
   upload_to_aws_s3 env s =
     (case s3_create_bucket env (lower (aws_bucket_name s)) ''ap-south-1'' of
        Inl e \<Rightarrow>
          (Ret False,
           s3_call (CreateBucket (lower (aws_bucket_name s)) ''ap-south-1'') (s3_call ListBuckets s))
      | Inr cr_bucket_status \<Rightarrow>
          if \<not> cr_bucket_status
          then (SysExit S3_BUCKET_CR_ERR,
                s3_call (CreateBucket (lower (aws_bucket_name s)) ''ap-south-1'')
                  (s3_call ListBuckets s))
          else put_json env
                 (s3_call (CreateBucket (lower (aws_bucket_name s)) ''ap-south-1'')
                    (s3_call ListBuckets s)))"
  by (auto simp: upload_to_aws_s3_def Let_def split: sum.splits)

lemma upload_frame:
  "trace (snd (upload_to_aws_s3 env s)) = trace s"
  "files (snd (upload_to_aws_s3 env s)) = files s"
  "\<exists>ops. fs_log (snd (upload_to_aws_s3 env s)) = fs_log s @ ops \<and> (\<forall>p b. WriteFile p b \<notin> set ops)"
  "fst (upload_to_aws_s3 env s) = SysExit c \<Longrightarrow> c = S3_BUCKET_CR_ERR"
  by (auto simp: upload_to_aws_s3_def Let_def put_json_shape split: sum.splits if_splits)

section \<open>The pipeline as a whole\<close>

lemma pipeline_stage_names: "map fst (spec_pipeline env) = stage_order"
  by (simp add: spec_pipeline_def stage_order_def)

lemma pipeline_trace:
  "(st, f) \<in> set (spec_pipeline env) \<Longrightarrow> trace (snd (f x)) = trace x"
  by (auto simp: spec_pipeline_def get_cmd_argv_frame fetch_stage_frame guard_stage_frame
      extension_stage_frame persist_stage_frame parse_stage_frame upload_frame)

lemma pipeline_exits:
  assumes "(st, f) \<in> set (spec_pipeline env)" and "fst (f x) = SysExit c"
  shows "(st = ArgValidation \<and> c = INVALID_ARG_ERR) \<or> (st = Upload \<and> c = S3_BUCKET_CR_ERR)"
  using assms
  by (auto simp: spec_pipeline_def fetch_stage_frame guard_stage_frame
      extension_stage_frame persist_stage_frame parse_stage_frame
      dest: get_cmd_argv_exit upload_frame(4))

lemma pipeline_keeps:
  assumes "(st, f) \<in> set (spec_pipeline env)"
  shows "keeps_files x (snd (f x))"
proof -
  have "keeps_files x (snd (get_cmd_argv env x))"
    by (simp add: keeps_files_same get_cmd_argv_frame)
  moreover have "keeps_files x (snd (fetch_stage env x))"
    using fetch_stage_frame(2,3) [of env x]
    by (auto intro!: keeps_filesI)
  moreover have "keeps_files x (snd (guard_stage x))"
    by (simp add: keeps_files_same guard_stage_frame)
  moreover have "keeps_files x (snd (extension_stage env x))"
    by (simp add: keeps_files_same extension_stage_frame)
  moreover have "keeps_files x (snd (upload_to_aws_s3 env x))"
    using upload_frame(2,3) [of env x]
    by (auto intro!: keeps_filesI)
  ultimately show ?thesis
    using assms persist_stage_frame(2) [of x] parse_stage_frame(2) [of x env]
    by (auto simp: spec_pipeline_def)
qed

lemma main_trace:
  "\<exists>tr. trace (snd (main env s0)) = trace s0 @ tr
       \<and> follows_order stage_order tr (fst (main env s0))
       \<and> (\<forall>st c. (st, SysExit c) \<in> set tr \<longrightarrow>
            (st = ArgValidation \<and> c = INVALID_ARG_ERR) \<or> (st = Upload \<and> c = S3_BUCKET_CR_ERR))"
  unfolding main_refines_spec pipeline_stage_names [of env, symmetric]
  by (rule spec_run_stages_trace) (auto intro: pipeline_trace dest: pipeline_exits)

lemma main_keeps: "keeps_files s0 (snd (main env s0))"
  unfolding main_refines_spec
  by (rule spec_run_stages_keeps) (rule pipeline_keeps)

lemma return_codes_differ:
  "SUCCESS \<noteq> GENERIC_ERR" "SUCCESS \<noteq> INVALID_ARG_ERR" "SUCCESS \<noteq> S3_BUCKET_CR_ERR"
  by (simp_all add: SUCCESS_def GENERIC_ERR_def INVALID_ARG_ERR_def S3_BUCKET_CR_ERR_def)

text \<open>The facts about the trace of a run that the claims use.\<close>

lemma run_trace_facts:
  "run_trace env s0 \<noteq> []"
  "map fst (run_trace env s0) = take (length (run_trace env s0)) stage_order"
  "Suc i < length (run_trace env s0) \<Longrightarrow> snd (run_trace env s0 ! i) = Ret True"
  "fst (main env s0) = SUCCESS \<longleftrightarrow>
     length (run_trace env s0) = length stage_order \<and> snd (last (run_trace env s0)) = Ret True"
  "snd (last (run_trace env s0)) = Ret False \<Longrightarrow> fst (main env s0) = GENERIC_ERR"
  "snd (last (run_trace env s0)) = SysExit c \<Longrightarrow>
     fst (main env s0) = c \<and> (c = INVALID_ARG_ERR \<or> c = S3_BUCKET_CR_ERR)"
  "(st, SysExit c) \<in> set (run_trace env s0) \<Longrightarrow>
     snd (last (run_trace env s0)) = SysExit c
     \<and> ((st = ArgValidation \<and> c = INVALID_ARG_ERR) \<or> (st = Upload \<and> c = S3_BUCKET_CR_ERR))"
proof -
  obtain tr where tr: "trace (snd (main env s0)) = trace s0 @ tr"
    and fo: "follows_order stage_order tr (fst (main env s0))"
    and ex: "\<And>st c. (st, SysExit c) \<in> set tr \<Longrightarrow>
            (st = ArgValidation \<and> c = INVALID_ARG_ERR) \<or> (st = Upload \<and> c = S3_BUCKET_CR_ERR)"
    using main_trace [of env s0] by blast
  have rt: "run_trace env s0 = tr"
    using tr by (simp add: run_trace_def)
  have order: "stage_order \<noteq> []"
    by (simp add: stage_order_def)
  from follows_order_shape [OF fo] order
  have names: "map fst tr = take (length tr) stage_order"
    and before: "\<And>i. Suc i < length tr \<Longrightarrow> snd (tr ! i) = Ret True"
    and ne: "tr \<noteq> []"
    and final: "case snd (last tr) of
             Ret True \<Rightarrow> length tr = length stage_order \<and> fst (main env s0) = SUCCESS
           | Ret False \<Rightarrow> fst (main env s0) = GENERIC_ERR
           | SysExit code \<Rightarrow> fst (main env s0) = code"
    by blast+
  have last_in: "last tr \<in> set tr"
    using ne by simp
  show "run_trace env s0 \<noteq> []"
    and "map fst (run_trace env s0) = take (length (run_trace env s0)) stage_order"
    unfolding rt using ne names by simp_all
  show "snd (run_trace env s0 ! i) = Ret True" if "Suc i < length (run_trace env s0)"
    using that before unfolding rt by simp
  show "snd (last (run_trace env s0)) = Ret False \<Longrightarrow> fst (main env s0) = GENERIC_ERR"
    unfolding rt using final by simp
  show exit: "fst (main env s0) = c \<and> (c = INVALID_ARG_ERR \<or> c = S3_BUCKET_CR_ERR)"
    if "snd (last (run_trace env s0)) = SysExit c" for c
  proof -
    from that have l: "snd (last tr) = SysExit c" unfolding rt .
    then have "(fst (last tr), SysExit c) \<in> set tr"
      using last_in by (metis prod.collapse)
    from ex [OF this] l final show ?thesis by auto
  qed
  show "fst (main env s0) = SUCCESS \<longleftrightarrow>
     length (run_trace env s0) = length stage_order \<and> snd (last (run_trace env s0)) = Ret True"
  proof (cases "snd (last tr)")
    case (SysExit c)
    with exit [of c] show ?thesis
      unfolding rt using return_codes_differ by auto
  next
    case (Ret b)
    with final show ?thesis
      unfolding rt using return_codes_differ by (cases b) auto
  qed
  show "snd (last (run_trace env s0)) = SysExit c
     \<and> ((st = ArgValidation \<and> c = INVALID_ARG_ERR) \<or> (st = Upload \<and> c = S3_BUCKET_CR_ERR))"
    if "(st, SysExit c) \<in> set (run_trace env s0)"
  proof -
    from that have m: "(st, SysExit c) \<in> set tr" unfolding rt .
    then obtain i where i: "i < length tr" "tr ! i = (st, SysExit c)"
      by (auto simp: in_set_conv_nth)
    have "\<not> Suc i < length tr"
      using before [of i] i by auto
    with i have "last tr = (st, SysExit c)"
      using ne by (metis Suc_lessI last_conv_nth diff_Suc_1)
    with ex [OF m] show ?thesis unfolding rt by simp
  qed
qed

text \<open>
  C1. A run of \<^verbatim>\<open>main\<close> is a run of the pipeline of the specification over the stages
  argument validation, fetch, downloadability check, extension resolution, persist,
  parse/serialize and upload. The stages that a run calls are an initial part of that
  list, in that order (and at least the first); every stage but the last one called has
  returned success; so the first stage that does not return success is the last one
  called. The run ends with success exactly when all seven stages were called and the
  last one returned success; a last stage that returned failure gives the generic
  failure status, one that exited gives its exit code (invalid argument or bucket
  creation). Nothing is rolled back: every file that was on disk before the run or that
  the run has written is on disk when it ends.
\<close>

theorem pipeline_runs_stages_in_order:
  "main env s0 = spec_run_stages (spec_pipeline env) s0
   \<and> run_trace env s0 \<noteq> []
   \<and> map fst (run_trace env s0) = take (length (run_trace env s0)) stage_order
   \<and> (Suc i < length (run_trace env s0) \<longrightarrow> snd (run_trace env s0 ! i) = Ret True)
   \<and> (fst (main env s0) = SUCCESS \<longleftrightarrow>
        length (run_trace env s0) = length stage_order
        \<and> snd (last (run_trace env s0)) = Ret True)
   \<and> (snd (last (run_trace env s0)) = Ret False \<longrightarrow> fst (main env s0) = GENERIC_ERR)
   \<and> (snd (last (run_trace env s0)) = SysExit c \<longrightarrow>
        fst (main env s0) = c \<and> (c = INVALID_ARG_ERR \<or> c = S3_BUCKET_CR_ERR))
   \<and> keeps_files s0 (snd (main env s0))"
  using main_refines_spec [of env s0] run_trace_facts(1,2,4) [of env s0]
    run_trace_facts(3) [of i env s0] run_trace_facts(5) [of env s0]
    run_trace_facts(6) [of env s0 c] main_keeps [of s0 env]
  by blast

section \<open>The Extension Resolver in a run\<close>

lemma get_extensions_all:
  "response s = Some r \<Longrightarrow> headers r ''Content-Type'' = Some ct \<Longrightarrow>
   get_extensions env s False True = guess_all_extensions env ct False"
  by (simp add: get_extensions_def response_headers_get_def)

lemma is_downloadable_True:
  "response s = Some r \<Longrightarrow> headers r ''Content-Type'' = Some ct \<Longrightarrow>
   \<not> contains_ignoring_case ''text'' ct \<Longrightarrow> \<not> contains_ignoring_case ''html'' ct \<Longrightarrow>
   is_downloadable s"
  by (simp add: is_downloadable_def is_downloadable_try_Some str_in_text str_in_html)

lemma spec_run_stages_appends:
  assumes "\<And>st f. (st, f) \<in> set stages \<Longrightarrow> (st, f) \<in> set (spec_pipeline env)"
    and "stages \<noteq> []"
  shows "\<exists>tr. trace (snd (spec_run_stages stages s)) = trace s @ tr \<and> tr \<noteq> []"
proof -
  have "\<exists>tr. trace (snd (spec_run_stages stages s)) = trace s @ tr
            \<and> follows_order (map fst stages) tr (fst (spec_run_stages stages s))
            \<and> (\<forall>st c. (st, SysExit c) \<in> set tr \<longrightarrow> True)"
    using assms(1) by (intro spec_run_stages_trace) (auto intro: pipeline_trace)
  then obtain tr where tr: "trace (snd (spec_run_stages stages s)) = trace s @ tr"
    and fo: "follows_order (map fst stages) tr (fst (spec_run_stages stages s))"
    by blast
  from follows_order_shape [OF fo] assms(2) have "tr \<noteq> []" by simp
  with tr show ?thesis by blast
qed

text \<open>
  A run with valid arguments, a response and a content type that passes the guard, up
  to the Extension Resolver: the state \<open>s4\<close> in which the resolver decides, and how the
  run goes on from there.
\<close>

lemma main_until_extension:
  assumes "length (sys_argv env) = 4"
    and "strip_arg (sys_argv env ! 1) \<noteq> []"
    and "strip_arg (sys_argv env ! 2) \<noteq> []"
    and "strip_arg (sys_argv env ! 3) \<noteq> []"
    and "requests_get env (strip_arg (sys_argv env ! 2)) = Inr (Some r)"
    and "headers r ''Content-Type'' = Some ct"
    and "\<not> contains_ignoring_case ''text'' ct"
    and "\<not> contains_ignoring_case ''html'' ct"
  shows "\<exists>s4 ops.
      trace s4 = trace s0 @ [(ArgValidation, Ret True), (Fetch, Ret True),
                              (DownloadabilityCheck, Ret True)]
    \<and> files s4 = files s0
    \<and> fs_log s4 = fs_log s0 @ ops \<and> (\<forall>p b. WriteFile p b \<notin> set ops)
    \<and> main env s0 =
        (if url_file_ext (strip_arg (sys_argv env ! 2)) \<in> set (guess_all_extensions env ct False)
         then spec_run_stages
                [(Persist, persist_stage), (ParseSerialize, parse_stage env),
                 (Upload, upload_to_aws_s3 env)]
                (log_stage ExtensionResolution (Ret True)
                   (s4\<lparr>OUTPUT_FILE_PATH :=
                         OUTPUT_FILE_PATH s4 @ url_file_ext (strip_arg (sys_argv env ! 2))\<rparr>))
         else (GENERIC_ERR, log_stage ExtensionResolution (Ret False) s4))"
proof -
  let ?url = "strip_arg (sys_argv env ! 2)"
  define s1 where "s1 = s0\<lparr>aws_bucket_name := strip_arg (sys_argv env ! 1),
    url_file_path := ?url, sheet_name := strip_arg (sys_argv env ! 3)\<rparr>"
  define s2 where "s2 = ensure_output_dir (log_stage ArgValidation (Ret True) s1)"
  define s3 where "s3 = log_stage Fetch (Ret True) (s2\<lparr>response := Some r\<rparr>)"
  define s4 where "s4 = log_stage DownloadabilityCheck (Ret True) s3"
  have a: "get_cmd_argv env s0 = (Ret True, s1)"
    using assms(1-4) by (simp add: get_cmd_argv_def Let_def s1_def)
  have url2: "url_file_path s2 = ?url"
    by (simp add: s2_def s1_def ensure_output_dir_frame)
  have b: "fetch_stage env (log_stage ArgValidation (Ret True) s1) = (Ret True, s2\<lparr>response := Some r\<rparr>)"
    using assms(5) url2 by (simp add: fetch_stage_def connect_Some s2_def)
  have resp: "response s3 = Some r" and url4: "url_file_path s4 = ?url"
    using url2 by (simp_all add: s3_def s4_def)
  have c: "guard_stage s3 = (Ret True, s3)"
    using is_downloadable_True [OF resp assms(6-8)] by (simp add: guard_stage_def)
  have resp4: "response s4 = Some r"
    using resp by (simp add: s4_def)
  have exts: "get_extensions env s4 False True = guess_all_extensions env ct False"
    using resp4 assms(6) by (rule get_extensions_all)
  have d: "extension_stage env s4 =
      (if url_file_ext ?url \<in> set (guess_all_extensions env ct False)
       then (Ret True, s4\<lparr>OUTPUT_FILE_PATH := OUTPUT_FILE_PATH s4 @ url_file_ext ?url\<rparr>)
       else (Ret False, s4))"
    unfolding extension_stage_def exts url4 by simp
  have run: "main env s0 =
        (if url_file_ext ?url \<in> set (guess_all_extensions env ct False)
         then spec_run_stages
                [(Persist, persist_stage), (ParseSerialize, parse_stage env),
                 (Upload, upload_to_aws_s3 env)]
                (log_stage ExtensionResolution (Ret True)
                   (s4\<lparr>OUTPUT_FILE_PATH := OUTPUT_FILE_PATH s4 @ url_file_ext ?url\<rparr>))
         else (GENERIC_ERR, log_stage ExtensionResolution (Ret False) s4))"
    unfolding main_refines_spec spec_pipeline_def
    by (simp add: a b c d s3_def [symmetric] s4_def [symmetric])
  obtain ops where ops: "fs_log s2 = fs_log s0 @ ops" "\<forall>p b. WriteFile p b \<notin> set ops"
    using ensure_output_dir_frame(4) [of "log_stage ArgValidation (Ret True) s1"]
    by (auto simp: s2_def s1_def)
  have t: "trace s4 = trace s0 @ [(ArgValidation, Ret True), (Fetch, Ret True),
                              (DownloadabilityCheck, Ret True)]"
    by (simp add: s4_def s3_def s2_def s1_def ensure_output_dir_frame)
  have f: "files s4 = files s0"
    by (simp add: s4_def s3_def s2_def s1_def ensure_output_dir_frame)
  have l: "fs_log s4 = fs_log s0 @ ops"
    using ops by (simp add: s4_def s3_def)
  from t f l ops(2) run show ?thesis by blast
qed

text \<open>
  C5. In a run that reaches the Extension Resolver (valid arguments, a response, a
  content type that passes the guard), the set of extensions implied by the content type
  is what the MIME registry gives for it, and the resolver is the fourth stage called:
  it succeeds exactly when that set is not empty and contains the extension taken from
  the URL. When the set is empty or does not contain that extension, the run ends at
  this stage with the failure status, no file on disk has changed, and no file was
  written.
\<close>

theorem extension_resolution_gates_persist:
  assumes "length (sys_argv env) = 4"
    and "strip_arg (sys_argv env ! 1) \<noteq> []"
    and "strip_arg (sys_argv env ! 2) \<noteq> []"
    and "strip_arg (sys_argv env ! 3) \<noteq> []"
    and "requests_get env (strip_arg (sys_argv env ! 2)) = Inr (Some r)"
    and "headers r ''Content-Type'' = Some ct"
    and "\<not> contains_ignoring_case ''text'' ct"
    and "\<not> contains_ignoring_case ''html'' ct"
  shows "(response s = Some r \<longrightarrow>
            get_extensions env s False True = guess_all_extensions env ct False)
       \<and> 4 \<le> length (run_trace env s0)
       \<and> take 3 (run_trace env s0) =
           [(ArgValidation, Ret True), (Fetch, Ret True), (DownloadabilityCheck, Ret True)]
       \<and> run_trace env s0 ! 3 =
           (ExtensionResolution,
            Ret (guess_all_extensions env ct False \<noteq> []
                 \<and> url_file_ext (strip_arg (sys_argv env ! 2))
                     \<in> set (guess_all_extensions env ct False)))
       \<and> (guess_all_extensions env ct False = []
            \<or> url_file_ext (strip_arg (sys_argv env ! 2))
                 \<notin> set (guess_all_extensions env ct False) \<longrightarrow>
            fst (main env s0) = GENERIC_ERR
            \<and> length (run_trace env s0) = 4
            \<and> files (snd (main env s0)) = files s0
            \<and> (\<forall>p b. WriteFile p b \<notin> set (new_fs_ops s0 (snd (main env s0)))))"
proof -
  let ?ext = "url_file_ext (strip_arg (sys_argv env ! 2))"
  let ?exts = "guess_all_extensions env ct False"
  let ?first = "[(ArgValidation, Ret True), (Fetch, Ret True), (DownloadabilityCheck, Ret True)]"
  have ok_iff: "(?exts \<noteq> [] \<and> ?ext \<in> set ?exts) \<longleftrightarrow> ?ext \<in> set ?exts"
    by auto
  from main_until_extension [OF assms, of s0] obtain s4 ops where
    t: "trace s4 = trace s0 @ ?first"
    and f: "files s4 = files s0"
    and l: "fs_log s4 = fs_log s0 @ ops" and w: "\<forall>p b. WriteFile p b \<notin> set ops"
    and run: "main env s0 =
        (if ?ext \<in> set ?exts
         then spec_run_stages
                [(Persist, persist_stage), (ParseSerialize, parse_stage env),
                 (Upload, upload_to_aws_s3 env)]
                (log_stage ExtensionResolution (Ret True)
                   (s4\<lparr>OUTPUT_FILE_PATH := OUTPUT_FILE_PATH s4 @ ?ext\<rparr>))
         else (GENERIC_ERR, log_stage ExtensionResolution (Ret False) s4))"
    by blast
  have exts: "get_extensions env s False True = ?exts" if "response s = Some r"
    using that assms(6) by (rule get_extensions_all)
  show ?thesis
  proof (cases "?ext \<in> set ?exts")
    case False
    with run have m: "main env s0 = (GENERIC_ERR, log_stage ExtensionResolution (Ret False) s4)"
      by simp
    have rt: "run_trace env s0 = ?first @ [(ExtensionResolution, Ret False)]"
      unfolding run_trace_def m using t by simp
    have "new_fs_ops s0 (snd (main env s0)) = ops"
      unfolding m using l by simp
    with w False rt m f exts show ?thesis by simp
  next
    case True
    let ?s5 = "log_stage ExtensionResolution (Ret True)
                   (s4\<lparr>OUTPUT_FILE_PATH := OUTPUT_FILE_PATH s4 @ ?ext\<rparr>)"
    let ?rest = "[(Persist, persist_stage), (ParseSerialize, parse_stage env),
                 (Upload, upload_to_aws_s3 env)]"
    from True run have m: "main env s0 = spec_run_stages ?rest ?s5"
      by simp
    have "\<exists>tr. trace (snd (spec_run_stages ?rest ?s5)) = trace ?s5 @ tr \<and> tr \<noteq> []"
      by (rule spec_run_stages_appends [where env = env]) (auto simp: spec_pipeline_def)
    then obtain tr where "trace (snd (main env s0)) = trace ?s5 @ tr"
      unfolding m by blast
    then have "trace (snd (main env s0)) =
        trace s0 @ (?first @ [(ExtensionResolution, Ret True)] @ tr)"
      using t by simp
    then have rt: "run_trace env s0 = ?first @ [(ExtensionResolution, Ret True)] @ tr"
      unfolding run_trace_def by (rule new_trace_append)
    from True have nonempty: "?exts \<noteq> []" by auto
    show ?thesis
      using True nonempty exts unfolding rt by simp
  qed
qed

section \<open>The example runs\<close>

lemmas example_defs =
  example_env_def example_state_def init_state_def example_response_def example_frame_def
  OUTPUT_FILE_PATH_init_def OUTPUT_FILE_JSON_def output_dir_def path_join_def

lemmas stage_defs =
  main_def get_cmd_argv_def ensure_output_dir_def connect_def is_downloadable_def
  is_downloadable_try_def response_headers_get_def CONTENT_TYPE_TEXT_def
  CONTENT_TYPE_HTML_def url_file_ext_def get_extensions_def download_def parse_file_def
  upload_to_aws_s3_def put_json_def df_empty_def to_dict_records_def
  where_notnull_None_def where_cell_def dict_of_def notnull_def log_stage_def s3_call_def
  fs_call_def os_path_isfile_def os_path_exists_def os_makedirs_def os_remove_def
  write_file_def dir_exists_def os_path_getsize_def strip_arg_def strip_chars_def
  JSON_FILE_PATH_ON_AWS_def path_dirname_def path_basename_def

text \<open>The sheet is missing: the run stops at the parse stage, the workbook stays on disk.\<close>

lemma other_sheet_run:
  "fst (main other_sheet_env example_state) = GENERIC_ERR"
  "trace (snd (main other_sheet_env example_state)) =
     [(ArgValidation, Ret True), (Fetch, Ret True), (DownloadabilityCheck, Ret True),
      (ExtensionResolution, Ret True), (Persist, Ret True), (ParseSerialize, Ret False)]"
  "files (snd (main other_sheet_env example_state)) =
     [''/app/output/dataingestion.xls'' \<mapsto> ''workbook'']"
  by (simp_all add: stage_defs example_defs other_sheet_env_def strip_eval lower_eval)

text \<open>The bucket is missing and its creation returns \<^verbatim>\<open>None\<close>: the run exits with status 5.\<close>

lemma no_bucket_run:
  "fst (main no_bucket_env example_state) = S3_BUCKET_CR_ERR"
  "trace (snd (main no_bucket_env example_state)) =
     [(ArgValidation, Ret True), (Fetch, Ret True), (DownloadabilityCheck, Ret True),
      (ExtensionResolution, Ret True), (Persist, Ret True), (ParseSerialize, Ret True),
      (Upload, SysExit S3_BUCKET_CR_ERR)]"
  by (simp_all add: stage_defs example_defs no_bucket_env_def strip_eval lower_eval)

text \<open>The run of the example succeeds.\<close>

lemma example_run:
  "fst (main example_env example_state) = SUCCESS"
  "trace (snd (main example_env example_state)) =
     [(ArgValidation, Ret True), (Fetch, Ret True), (DownloadabilityCheck, Ret True),
      (ExtensionResolution, Ret True), (Persist, Ret True), (ParseSerialize, Ret True),
      (Upload, Ret True)]"
  "s3_log (snd (main example_env example_state)) =
     [ListBuckets,
      PutObject ''my-bucket'' ''public-read'' ''DataIngestion/dataingestion.json'' ''[{}, {}]'']"
  by (simp_all add: stage_defs example_defs strip_eval lower_eval)

lemma example_trace_empty: "trace example_state = []"
  by (simp add: example_state_def init_state_def)

theorem pipeline_runs_stages_in_order_witness:
  "run_trace other_sheet_env example_state =
     [(ArgValidation, Ret True), (Fetch, Ret True), (DownloadabilityCheck, Ret True),
      (ExtensionResolution, Ret True), (Persist, Ret True), (ParseSerialize, Ret False)]
   \<and> Suc 4 < length (run_trace other_sheet_env example_state)
   \<and> snd (last (run_trace other_sheet_env example_state)) = Ret False
   \<and> fst (main other_sheet_env example_state) = GENERIC_ERR
   \<and> files (snd (main other_sheet_env example_state)) ''/app/output/dataingestion.xls''
       = Some ''workbook''
   \<and> snd (last (run_trace no_bucket_env example_state)) = SysExit S3_BUCKET_CR_ERR
   \<and> fst (main no_bucket_env example_state) = S3_BUCKET_CR_ERR
   \<and> length (run_trace example_env example_state) = length stage_order
   \<and> fst (main example_env example_state) = SUCCESS"
proof -
  have rt: "run_trace other_sheet_env example_state =
     [(ArgValidation, Ret True), (Fetch, Ret True), (DownloadabilityCheck, Ret True),
      (ExtensionResolution, Ret True), (Persist, Ret True), (ParseSerialize, Ret False)]"
    "run_trace no_bucket_env example_state =
     [(ArgValidation, Ret True), (Fetch, Ret True), (DownloadabilityCheck, Ret True),
      (ExtensionResolution, Ret True), (Persist, Ret True), (ParseSerialize, Ret True),
      (Upload, SysExit S3_BUCKET_CR_ERR)]"
    "run_trace example_env example_state =
     [(ArgValidation, Ret True), (Fetch, Ret True), (DownloadabilityCheck, Ret True),
      (ExtensionResolution, Ret True), (Persist, Ret True), (ParseSerialize, Ret True),
      (Upload, Ret True)]"
    by (simp_all add: run_trace_def new_trace_def example_trace_empty other_sheet_run(2)
        no_bucket_run(2) example_run(2))
  show ?thesis
    using pipeline_runs_stages_in_order [of other_sheet_env example_state 4 0, THEN conjunct2]
      pipeline_runs_stages_in_order [of no_bucket_env example_state 0 S3_BUCKET_CR_ERR,
        THEN conjunct2]
      pipeline_runs_stages_in_order [of example_env example_state 0 0, THEN conjunct2]
    by (simp add: rt other_sheet_run(3) stage_order_def)
qed

theorem extension_resolution_gates_persist_witness:
  "length (sys_argv csv_env) = 4
   \<and> strip_arg (sys_argv csv_env ! 1) \<noteq> []
   \<and> strip_arg (sys_argv csv_env ! 2) = ''https://host/MIC.csv''
   \<and> strip_arg (sys_argv csv_env ! 3) \<noteq> []
   \<and> requests_get csv_env (strip_arg (sys_argv csv_env ! 2)) = Inr (Some example_response)
   \<and> headers example_response ''Content-Type'' = Some ''application/vnd.ms-excel''
   \<and> \<not> contains_ignoring_case ''text'' ''application/vnd.ms-excel''
   \<and> \<not> contains_ignoring_case ''html'' ''application/vnd.ms-excel''
   \<and> url_file_ext ''https://host/MIC.csv'' = ''.csv''
   \<and> guess_all_extensions csv_env ''application/vnd.ms-excel'' False = [''.xlb'', ''.xls'']
   \<and> run_trace csv_env example_state ! 3 = (ExtensionResolution, Ret False)
   \<and> fst (main csv_env example_state) = GENERIC_ERR
   \<and> files (snd (main csv_env example_state)) = files example_state"
proof -
  have h1: "length (sys_argv csv_env) = 4"
    and h2: "strip_arg (sys_argv csv_env ! 1) \<noteq> []"
    and h3: "strip_arg (sys_argv csv_env ! 2) \<noteq> []"
    and h4: "strip_arg (sys_argv csv_env ! 3) \<noteq> []"
    and url: "strip_arg (sys_argv csv_env ! 2) = ''https://host/MIC.csv''"
    by (simp_all add: csv_env_def example_env_def strip_arg_def strip_chars_def strip_eval)
  have h5: "requests_get csv_env (strip_arg (sys_argv csv_env ! 2)) = Inr (Some example_response)"
    by (simp add: csv_env_def example_env_def)
  have h6: "headers example_response ''Content-Type'' = Some ''application/vnd.ms-excel''"
    by (simp add: example_response_def)
  have h7: "\<not> contains_ignoring_case ''text'' ''application/vnd.ms-excel''"
    unfolding str_in_text [symmetric] by (simp add: lower_eval)
  have h8: "\<not> contains_ignoring_case ''html'' ''application/vnd.ms-excel''"
    unfolding str_in_html [symmetric] by (simp add: lower_eval)
  have ext: "url_file_ext ''https://host/MIC.csv'' = ''.csv''"
    by (simp add: url_file_ext_def strip_eval)
  have exts: "guess_all_extensions csv_env ''application/vnd.ms-excel'' False = [''.xlb'', ''.xls'']"
    by (simp add: csv_env_def example_env_def)
  show ?thesis
    using extension_resolution_gates_persist [OF h1 h2 h3 h4 h5 h6 h7 h8, of example_state example_state]
      h1 h2 h4 h5 h6 h7 h8
    by (simp add: url ext exts)
qed

section \<open>A creation of the bucket that raises\<close>

text \<open>
  C8. A creation of the container that fails does not end the run with the
  container-creation status. The code exits with that status only when
  \<^verbatim>\<open>create_bucket\<close> returns \<^verbatim>\<open>None\<close>; a creation that fails raises instead, the handler
  of the stage catches the exception, the stage returns \<^verbatim>\<open>False\<close>, and the run ends
  with the generic failure status. In the example with no bucket of that name and a
  \<^verbatim>\<open>create_bucket\<close> that raises, the run lists the buckets, calls the creation, uploads
  nothing, and exits with status 1, not 5.
\<close>

theorem raising_creation_gives_generic_status:
  "s3_buckets_all raising_create_env = Inr [''other'']
   \<and> lower (aws_bucket_name (snd (main raising_create_env example_state))) = ''my-bucket''
   \<and> s3_create_bucket raising_create_env ''my-bucket'' ''ap-south-1'' = Inl ClientError
   \<and> fst (main raising_create_env example_state) = GENERIC_ERR
   \<and> fst (main raising_create_env example_state) \<noteq> S3_BUCKET_CR_ERR
   \<and> trace (snd (main raising_create_env example_state)) =
       [(ArgValidation, Ret True), (Fetch, Ret True), (DownloadabilityCheck, Ret True),
        (ExtensionResolution, Ret True), (Persist, Ret True), (ParseSerialize, Ret True),
        (Upload, Ret False)]
   \<and> s3_log (snd (main raising_create_env example_state)) =
       [ListBuckets, CreateBucket ''my-bucket'' ''ap-south-1'']"
  by (simp add: stage_defs example_defs raising_create_env_def strip_eval lower_eval
      GENERIC_ERR_def S3_BUCKET_CR_ERR_def)

end
